theory Spec2Isabelle
  imports Main
begin

section \<open>Text primitives of the interpreter\<close>

text \<open>
  The script interpreter \<^verbatim>\<open>cmdl_interpreter.py\<close> works on Python strings. A string is
  modelled as a list of characters, one \<open>char\<close> per code point; the character classes
  below are those of Python's \<^verbatim>\<open>str.strip\<close> and of the \<^verbatim>\<open>re\<close> module on the ASCII range
  (code points from 128 on are treated as neither whitespace nor word characters).
\<close>

definition nl :: char where
  "nl = CHR 0x0A"

definition is_space :: "char \<Rightarrow> bool" where
  \<comment> \<open>\<^verbatim>\<open>\s\<close> and \<^verbatim>\<open>str.isspace\<close>: tab, newline, VT, FF, CR, the separators 0x1C-0x1F, space\<close>
  "is_space c = (let n = (of_char c :: nat) in (9 \<le> n \<and> n \<le> 13) \<or> (28 \<le> n \<and> n \<le> 32))"

definition is_digit :: "char \<Rightarrow> bool" where
  "is_digit c = (let n = (of_char c :: nat) in 48 \<le> n \<and> n \<le> 57)"

definition is_ident_start :: "char \<Rightarrow> bool" where
  \<comment> \<open>\<^verbatim>\<open>[A-Za-z_]\<close>\<close>
  "is_ident_start c =
     (let n = (of_char c :: nat) in (65 \<le> n \<and> n \<le> 90) \<or> (97 \<le> n \<and> n \<le> 122) \<or> n = 95)"

definition is_word :: "char \<Rightarrow> bool" where
  \<comment> \<open>\<^verbatim>\<open>\w\<close>\<close>
  "is_word c = (is_ident_start c \<or> is_digit c)"

definition lower_char :: "char \<Rightarrow> char" where
  "lower_char c =
     (let n = (of_char c :: nat) in if 65 \<le> n \<and> n \<le> 90 then char_of (n + 32) else c)"

definition lower :: "string \<Rightarrow> string" where
  "lower s = map lower_char s"

definition lstrip :: "string \<Rightarrow> string" where
  "lstrip s = dropWhile is_space s"

definition rstrip :: "string \<Rightarrow> string" where
  "rstrip s = rev (dropWhile is_space (rev s))"

definition strip :: "string \<Rightarrow> string" where
  "strip s = rstrip (lstrip s)"

definition rstrip_nl :: "string \<Rightarrow> string" where
  \<comment> \<open>\<^verbatim>\<open>s.rstrip("\n")\<close>\<close>
  "rstrip_nl s = rev (dropWhile (\<lambda>c. c = nl) (rev s))"

definition startswith :: "string \<Rightarrow> string \<Rightarrow> bool" where
  "startswith s p = (take (length p) s = p)"

definition endswith :: "string \<Rightarrow> string \<Rightarrow> bool" where
  "endswith s p = (length p \<le> length s \<and> drop (length s - length p) s = p)"

definition quoted :: "string \<Rightarrow> bool" where
  \<comment> \<open>the test \<^verbatim>\<open>(s.startswith('"') and s.endswith('"')) or (s.startswith("'") and s.endswith("'"))\<close>\<close>
  "quoted s = ((startswith s [CHR 0x22] \<and> endswith s [CHR 0x22])
             \<or> (startswith s [CHR 0x27] \<and> endswith s [CHR 0x27]))"

definition unquote :: "string \<Rightarrow> string" where
  \<comment> \<open>\<^verbatim>\<open>s[1:-1]\<close>\<close>
  "unquote s = butlast (tl s)"

definition until_nl :: "string \<Rightarrow> string" where
  \<comment> \<open>the text a greedy \<^verbatim>\<open>.*\<close> takes: \<^verbatim>\<open>.\<close> matches anything but a newline\<close>
  "until_nl s = takeWhile (\<lambda>c. c \<noteq> nl) s"

definition at_dollar :: "string \<Rightarrow> bool" where
  \<comment> \<open>\<^verbatim>\<open>$\<close> matches at the end of the text, or just before a newline that ends it\<close>
  "at_dollar s = (s = [] \<or> s = [nl])"

definition line_rest_ok :: "string \<Rightarrow> bool" where
  \<comment> \<open>\<^verbatim>\<open>.*$\<close> matches from here: the first newline, if any, is the last character\<close>
  "line_rest_ok s = at_dollar (dropWhile (\<lambda>c. c \<noteq> nl) s)"

definition split_ident :: "string \<Rightarrow> (string \<times> string) option" where
  \<comment> \<open>\<^verbatim>\<open>[A-Za-z_]\w*\<close> at the start, greedy: the identifier and what follows it\<close>
  "split_ident s =
     (case s of
        [] \<Rightarrow> None
      | c # cs \<Rightarrow>
          if is_ident_start c then Some (c # takeWhile is_word cs, dropWhile is_word cs)
          else None)"

subsection \<open>Numbers: \<^verbatim>\<open>is_number\<close> and \<^verbatim>\<open>to_number\<close> on text\<close>

text \<open>
  \<^verbatim>\<open>is_number(s)\<close> is "\<^verbatim>\<open>float(s)\<close> does not raise". For a string that is Python's
  float syntax: surrounding whitespace, a sign, then \<^verbatim>\<open>inf\<close>, \<^verbatim>\<open>infinity\<close>, \<^verbatim>\<open>nan\<close> (any case)
  or a decimal number with an optional exponent; single underscores may stand between
  digits.
\<close>

fun digit_part :: "string \<Rightarrow> string" where
  \<comment> \<open>what is left after the digits (and inner underscores) that follow a first digit\<close>
  "digit_part [] = []"
| "digit_part [c] = (if is_digit c then [] else [c])"
| "digit_part (c # d # cs) =
     (if is_digit c then digit_part (d # cs)
      else if c = CHR ''_'' \<and> is_digit d then digit_part (d # cs)
      else c # d # cs)"

definition digits_then :: "string \<Rightarrow> string option" where
  \<comment> \<open>a digit part (digit, then digits with single inner underscores): the text after it\<close>
  "digits_then s =
     (case s of [] \<Rightarrow> None | c # cs \<Rightarrow> if is_digit c then Some (digit_part cs) else None)"

definition exponent_ok :: "string \<Rightarrow> bool" where
  \<comment> \<open>nothing, or \<^verbatim>\<open>e\<close>/\<^verbatim>\<open>E\<close>, an optional sign and a digit part, up to the end\<close>
  "exponent_ok s =
     (case s of
        [] \<Rightarrow> True
      | c # cs \<Rightarrow>
          if c = CHR ''e'' \<or> c = CHR ''E'' then
            (let ds = (case cs of
                         [] \<Rightarrow> cs
                       | x # xs \<Rightarrow> if x = CHR ''+'' \<or> x = CHR ''-'' then xs else cs)
             in digits_then ds = Some [])
          else False)"

definition unsigned_float :: "string \<Rightarrow> bool" where
  "unsigned_float s =
     (if lower s = ''inf'' \<or> lower s = ''infinity'' \<or> lower s = ''nan'' then True
      else
        (case s of
           [] \<Rightarrow> False
         | c # cs \<Rightarrow>
             if c = CHR ''.'' then
               (case digits_then cs of None \<Rightarrow> False | Some r \<Rightarrow> exponent_ok r)
             else
               (case digits_then s of
                  None \<Rightarrow> False
                | Some r \<Rightarrow>
                    (case r of
                       [] \<Rightarrow> True
                     | x # xs \<Rightarrow>
                         if x = CHR ''.'' then
                           (case digits_then xs of
                              None \<Rightarrow> exponent_ok xs
                            | Some r2 \<Rightarrow> exponent_ok r2)
                         else exponent_ok r))))"

definition drop_sign :: "string \<Rightarrow> string" where
  "drop_sign s =
     (case s of [] \<Rightarrow> [] | c # cs \<Rightarrow> if c = CHR ''+'' \<or> c = CHR ''-'' then cs else s)"

definition c_space :: "char \<Rightarrow> bool" where
  \<comment> \<open>the whitespace \<^verbatim>\<open>float\<close> and \<^verbatim>\<open>int\<close> skip around ASCII text: tab to CR, and space\<close>
  "c_space c = (let n = (of_char c :: nat) in (9 \<le> n \<and> n \<le> 13) \<or> n = 32)"

definition num_strip :: "string \<Rightarrow> string" where
  "num_strip s = rev (dropWhile c_space (rev (dropWhile c_space s)))"

definition is_number :: "string \<Rightarrow> bool" where
  "is_number s = unsigned_float (drop_sign (num_strip s))"

definition digit_val :: "char \<Rightarrow> int" where
  "digit_val c = int (of_char c) - 48"

definition digits_value :: "string \<Rightarrow> int" where
  \<comment> \<open>the value of a digit part, underscores skipped\<close>
  "digits_value s = foldl (\<lambda>a c. 10 * a + digit_val c) 0 (filter is_digit s)"

definition py_int :: "string \<Rightarrow> int option" where
  \<comment> \<open>\<^verbatim>\<open>int(s)\<close> on text: \<open>None\<close> is \<^verbatim>\<open>ValueError\<close>\<close>
  "py_int s =
     (let t = num_strip s; u = drop_sign t in
      if digits_then u = Some [] then
        Some (if startswith t ''-'' then - digits_value u else digits_value u)
      else None)"

section \<open>The program tree\<close>

text \<open>
  The parser builds nodes as dictionaries. A node's \<^verbatim>\<open>"type"\<close> selects the constructor;
  the fields are those of the dictionary, in the order given. The \<^verbatim>\<open>"parent"\<close> field (a
  reference to the list that holds the node) is not stored: a list is reached by its path
  from the root while the tree is built, and the finished tree is never mutated.
\<close>

datatype kind = KIf | KElif | KElse

datatype node =
    Label string string              \<comment> \<open>name, raw\<close>
  | Loop "string option" string "node list"   \<comment> \<open>param, raw, children\<close>
  | IfChain "part list" string       \<comment> \<open>type \<^verbatim>\<open>"if"\<close>: parts, raw\<close>
  | IfPart part                      \<comment> \<open>an \<^verbatim>\<open>"ifpart"\<close> placed in a statement list itself\<close>
  | Stmt string                      \<comment> \<open>raw\<close>
and part =
    Part kind "string option" "node list" string   \<comment> \<open>kind, cond, children, raw\<close>

fun is_if :: "node \<Rightarrow> bool" where
  "is_if (IfChain ps raw) = True"
| "is_if n = False"

subsection \<open>Line shapes\<close>

definition indent_level :: "string \<Rightarrow> nat" where
  "indent_level line =
     (if startswith line [CHR 0x09] then length (takeWhile (\<lambda>c. c = CHR 0x09) line)
      else length (takeWhile (\<lambda>c. c = CHR '' '') line) div 4)"

definition paren_group :: "string \<Rightarrow> (string \<times> string) option" where
  \<comment> \<open>\<^verbatim>\<open>\(([^)]*)\)\<close> at the start: the text between the parentheses and what follows\<close>
  "paren_group r =
     (case r of
        [] \<Rightarrow> None
      | c # r1 \<Rightarrow>
          if c = CHR ''('' \<and> CHR '')'' \<in> set r1
          then Some (takeWhile (\<lambda>x. x \<noteq> CHR '')'') r1, tl (dropWhile (\<lambda>x. x \<noteq> CHR '')'') r1))
          else None)"

definition label_match :: "string \<Rightarrow> string option" where
  \<comment> \<open>\<^verbatim>\<open>^([A-Za-z_]\w*)\(\):\s*$\<close>: the label's name\<close>
  "label_match s =
     (case split_ident s of
        None \<Rightarrow> None
      | Some (w, r) \<Rightarrow>
          if startswith r ''():'' \<and> list_all is_space (drop 3 r) then Some w else None)"

definition colon_end :: "string \<Rightarrow> bool" where
  \<comment> \<open>\<^verbatim>\<open>:\s*$\<close>\<close>
  "colon_end r = (case r of [] \<Rightarrow> False | c # ws \<Rightarrow> c = CHR '':'' \<and> list_all is_space ws)"

definition loop_match :: "string \<Rightarrow> string option option" where
  \<comment> \<open>\<^verbatim>\<open>^loop(?:\(([^)]*)\))?:\s*$\<close>: group 1 when the line is a loop header\<close>
  "loop_match s =
     (if startswith s ''loop'' then
        (let r = drop 4 s in
         case paren_group r of
           Some (pa, r2) \<Rightarrow>
             if colon_end r2 then Some (Some pa)
             else if colon_end r then Some None else None
         | None \<Rightarrow> if colon_end r then Some None else None)
      else None)"

definition cond_text :: "string \<Rightarrow> string option" where
  \<comment> \<open>\<^verbatim>\<open>\s+(.+?):\s*$\<close> after the keyword: group 2, stripped. The colon is the last
      character that is not whitespace; the lazy group starts after the whitespace and
      may not hold a newline; when the colon follows the whitespace directly, the group is
      the last whitespace character, which leaves at least one for \<^verbatim>\<open>\s+\<close>.\<close>
  "cond_text r =
     (let body = rstrip r; inner = butlast body; g = dropWhile is_space inner in
      if r = [] then None
      else if \<not> is_space (hd r) then None
      else if body = [] then None
      else if last body \<noteq> CHR '':'' then None
      else if g \<noteq> [] then (if nl \<in> set g then None else Some (strip g))
      else if 2 \<le> length inner \<and> last inner \<noteq> nl then Some []
      else None)"

definition if_match :: "string \<Rightarrow> (kind \<times> string) option" where
  \<comment> \<open>\<^verbatim>\<open>^(if|elif)\s+(.+?):\s*$\<close>: the kind and the stripped condition\<close>
  "if_match s =
     (if startswith s ''if'' then map_option (Pair KIf) (cond_text (drop 2 s))
      else if startswith s ''elif'' then map_option (Pair KElif) (cond_text (drop 4 s))
      else None)"

definition else_match :: "string \<Rightarrow> bool" where
  \<comment> \<open>\<^verbatim>\<open>^else:\s*$\<close>\<close>
  "else_match s = (startswith s ''else:'' \<and> list_all is_space (drop 5 s))"

subsection \<open>The tree builder\<close>

text \<open>
  \<^verbatim>\<open>parse_lines\<close> keeps a stack of pairs (indent, list), where the list is the children
  list of a node already placed in the tree, and appends to the list on top. Here a list
  is named by its path from the root: \<open>InLoop i\<close> enters the children of the loop at
  index \<open>i\<close>, \<open>InArm i k\<close> the children of part \<open>k\<close> of the conditional at index \<open>i\<close>.
  Lists only grow at their end, so a path stays valid.
\<close>

datatype step = InLoop nat | InArm nat nat

fun part_children :: "part \<Rightarrow> node list" where
  "part_children (Part k c cs raw) = cs"

fun part_kind :: "part \<Rightarrow> kind" where
  "part_kind (Part k c cs raw) = k"

fun part_cond :: "part \<Rightarrow> string option" where
  "part_cond (Part k c cs raw) = c"

fun list_at :: "step list \<Rightarrow> node list \<Rightarrow> node list" where
  "list_at [] t = t"
| "list_at (InLoop i # p) t =
     (if i < length t then (case t ! i of Loop pa raw cs \<Rightarrow> list_at p cs | _ \<Rightarrow> []) else [])"
| "list_at (InArm i k # p) t =
     (if i < length t then
        (case t ! i of
           IfChain ps raw \<Rightarrow> (if k < length ps then list_at p (part_children (ps ! k)) else [])
         | _ \<Rightarrow> [])
      else [])"

fun update_at :: "step list \<Rightarrow> (node list \<Rightarrow> node list) \<Rightarrow> node list \<Rightarrow> node list" where
  "update_at [] f t = f t"
| "update_at (InLoop i # p) f t =
     (if i < length t then
        (case t ! i of Loop pa raw cs \<Rightarrow> t[i := Loop pa raw (update_at p f cs)] | _ \<Rightarrow> t)
      else t)"
| "update_at (InArm i k # p) f t =
     (if i < length t then
        (case t ! i of
           IfChain ps raw \<Rightarrow>
             (if k < length ps then
                (case ps ! k of
                   Part kd c cs praw \<Rightarrow>
                     t[i := IfChain (ps[k := Part kd c (update_at p f cs) praw]) raw])
              else t)
         | _ \<Rightarrow> t)
      else t)"

definition append_node :: "node \<Rightarrow> node list \<Rightarrow> node list" where
  \<comment> \<open>\<^verbatim>\<open>cur_list.append(node)\<close>\<close>
  "append_node n l = l @ [n]"

definition append_part :: "nat \<Rightarrow> part \<Rightarrow> node list \<Rightarrow> node list" where
  \<comment> \<open>\<^verbatim>\<open>found["parts"].append(node)\<close>, \<open>found\<close> being the conditional at index \<open>j\<close>\<close>
  "append_part j pt l =
     (case l ! j of IfChain ps raw \<Rightarrow> l[j := IfChain (ps @ [pt]) raw] | _ \<Rightarrow> l)"

fun find_if :: "node list \<Rightarrow> nat option" where
  \<comment> \<open>\<^verbatim>\<open>for n in reversed(cur_list): if n.get("type") == "if": found = n; break\<close>:
      the index of the last conditional of the list\<close>
  "find_if [] = None"
| "find_if (n # ns) =
     (case find_if ns of
        Some j \<Rightarrow> Some (Suc j)
      | None \<Rightarrow> if is_if n then Some 0 else None)"

fun parts_count :: "node \<Rightarrow> nat" where
  "parts_count (IfChain ps raw) = length ps"
| "parts_count n = 0"

type_synonym frame = "int \<times> step list"

fun pop_frames :: "int \<Rightarrow> frame list \<Rightarrow> frame list" where
  \<comment> \<open>\<^verbatim>\<open>while ind <= stack[-1][0] and len(stack) > 1: stack.pop()\<close>; the top is the head\<close>
  "pop_frames ind (f # g # fs) =
     (if ind \<le> fst f then pop_frames ind (g # fs) else f # g # fs)"
| "pop_frames ind fs = fs"

type_synonym builder = "node list \<times> frame list"

definition place_arm :: "kind \<Rightarrow> string option \<Rightarrow> string \<Rightarrow> int \<Rightarrow> step list \<Rightarrow> node list
    \<Rightarrow> frame list \<Rightarrow> builder" where
  \<comment> \<open>an \<^verbatim>\<open>elif\<close> or \<^verbatim>\<open>else\<close> header: attached to the conditional found in the current
      list, or appended to the list as it is, with no frame pushed\<close>
  "place_arm kd c stripped ind path tree stack =
     (let cur = list_at path tree; pt = Part kd c [] stripped in
      case find_if cur of
        None \<Rightarrow> (update_at path (append_node (IfPart pt)) tree, stack)
      | Some j \<Rightarrow>
          (update_at path (append_part j pt) tree,
           (ind, path @ [InArm j (parts_count (cur ! j))]) # stack))"

datatype shape =
    SLabel string              \<comment> \<open>\<^verbatim>\<open>m_label\<close>: the name\<close>
  | SLoop "string option"      \<comment> \<open>\<^verbatim>\<open>m_loop\<close>: group 1\<close>
  | SArm kind string           \<comment> \<open>\<^verbatim>\<open>m_if\<close>: \<^verbatim>\<open>if\<close> or \<^verbatim>\<open>elif\<close>, and the condition\<close>
  | SElse                      \<comment> \<open>\<^verbatim>\<open>m_else\<close>\<close>
  | SStmt

definition line_shape :: "string \<Rightarrow> shape" where
  \<comment> \<open>the chain of \<^verbatim>\<open>re.match\<close> tests on the stripped line, first match first\<close>
  "line_shape stripped =
     (case label_match stripped of
        Some name \<Rightarrow> SLabel name
      | None \<Rightarrow>
          (case loop_match stripped of
             Some g \<Rightarrow> SLoop g
           | None \<Rightarrow>
               (case if_match stripped of
                  Some (kd, c) \<Rightarrow> SArm kd c
                | None \<Rightarrow> if else_match stripped then SElse else SStmt)))"

definition skipped :: "string \<Rightarrow> bool" where
  \<comment> \<open>\<^verbatim>\<open>raw.strip() == "" or raw.strip().startswith("#")\<close>\<close>
  "skipped raw = (strip raw = [] \<or> startswith (strip raw) ''#'')"

definition parse_line :: "builder \<Rightarrow> string \<Rightarrow> builder" where
  \<comment> \<open>one turn of the \<^verbatim>\<open>while i < len(lines)\<close> loop\<close>
  "parse_line b line =
     (let raw = rstrip_nl line in
      if skipped raw then b
      else
        (let tree = fst b;
             ind = int (indent_level raw);
             stack = pop_frames ind (snd b);
             path = snd (hd stack);
             cur = list_at path tree;
             stripped = lstrip raw
         in case line_shape stripped of
              SLabel name \<Rightarrow> (update_at path (append_node (Label name stripped)) tree, stack)
            | SLoop g \<Rightarrow>
                (update_at path
                   (append_node
                      (Loop (case g of None \<Rightarrow> None
                             | Some pa \<Rightarrow> if pa = [] then None else Some (strip pa))
                         stripped [])) tree,
                 (ind, path @ [InLoop (length cur)]) # stack)
            | SArm kd c \<Rightarrow>
                (if kd = KIf then
                   (update_at path (append_node (IfChain [Part kd (Some c) [] stripped] stripped)) tree,
                    (ind, path @ [InArm (length cur) 0]) # stack)
                 else place_arm kd (Some c) stripped ind path tree stack)
            | SElse \<Rightarrow> place_arm KElse None stripped ind path tree stack
            | SStmt \<Rightarrow> (update_at path (append_node (Stmt stripped)) tree, stack)))"

definition parse_lines :: "string list \<Rightarrow> node list" where
  "parse_lines lines = fst (foldl parse_line ([], [(- 1, [])]) lines)"

section \<open>Values, the Python runtime and the interpreter's state\<close>

text \<open>
  A variable holds what \<^verbatim>\<open>set\<close> and \<^verbatim>\<open>math\<close> store: an integer, a text, a boolean, or any
  other Python object (a float, or whatever \<^verbatim>\<open>eval\<close> returns). Floats and the other objects
  are kept abstract (type \<open>'o\<close>), and so is what the Python runtime does with them: the
  record \<open>py\<close> holds the built-ins the interpreter calls and this theory does not define.
  Every definition and theorem below is for an arbitrary such runtime.
\<close>

datatype 'o val = VInt int | VStr string | VBool bool | VObj 'o

record 'o py =
  py_eval :: "string \<Rightarrow> string + 'o val"
    \<comment> \<open>\<^verbatim>\<open>eval(text, {"__builtins__": None}, {})\<close>: the exception's message, or the value\<close>
  py_float :: "string \<Rightarrow> 'o"           \<comment> \<open>\<^verbatim>\<open>float(s)\<close> for a text in float syntax\<close>
  int_float :: "int \<Rightarrow> 'o option"       \<comment> \<open>\<^verbatim>\<open>float(n)\<close>; \<open>None\<close> when it raises\<close>
  obj_float :: "'o \<Rightarrow> 'o option"        \<comment> \<open>\<^verbatim>\<open>float(o)\<close>; \<open>None\<close> when it raises\<close>
  obj_int :: "'o \<Rightarrow> int option"         \<comment> \<open>\<^verbatim>\<open>int(o)\<close>, truncation for a float; \<open>None\<close> when it raises\<close>
  obj_is_float :: "'o \<Rightarrow> bool"          \<comment> \<open>\<^verbatim>\<open>isinstance(o, float)\<close>\<close>
  obj_str :: "'o \<Rightarrow> string"             \<comment> \<open>\<^verbatim>\<open>str(o)\<close>\<close>
  obj_repr :: "'o \<Rightarrow> string"            \<comment> \<open>\<^verbatim>\<open>repr(o)\<close>\<close>
  obj_truth :: "'o \<Rightarrow> bool"             \<comment> \<open>\<^verbatim>\<open>bool(o)\<close>\<close>
  str_repr :: "string \<Rightarrow> string"        \<comment> \<open>\<^verbatim>\<open>repr(s)\<close> of a text\<close>

datatype 'o effect =
    Print string          \<comment> \<open>\<^verbatim>\<open>print(line)\<close>\<close>
  | ClearConsole          \<comment> \<open>\<^verbatim>\<open>clear_console()\<close>\<close>
  | SetColor string       \<comment> \<open>\<^verbatim>\<open>set_color_ansi\<close> on the stripped argument\<close>
  | WaitEnter             \<comment> \<open>\<^verbatim>\<open>input("Press Enter to continue...")\<close>\<close>
  | Sleep "'o val"        \<comment> \<open>\<^verbatim>\<open>time.sleep(float(v))\<close>\<close>

datatype exn =
    UnknownLabel "string option"      \<comment> \<open>\<^verbatim>\<open>RuntimeErrorInter("Unknown label: ...")\<close>\<close>
  | BadSet string                     \<comment> \<open>\<^verbatim>\<open>"Bad set syntax: raw"\<close>\<close>
  | BadMath string                    \<comment> \<open>\<^verbatim>\<open>"Bad math syntax: raw"\<close>\<close>
  | BadExpression string string       \<comment> \<open>\<^verbatim>\<open>"Bad expression: expr -> e"\<close>\<close>
  | BadCondition "string option" string   \<comment> \<open>\<^verbatim>\<open>"Bad condition 'cond': e"\<close>\<close>
  | StepLimit                         \<comment> \<open>\<^verbatim>\<open>"Step limit exceeded (possible infinite loop)."\<close>\<close>
  | NumberError                       \<comment> \<open>what \<^verbatim>\<open>to_number\<close> or \<^verbatim>\<open>int\<close> raises on a loop count\<close>
  | SystemExit                        \<comment> \<open>\<^verbatim>\<open>sys.exit(0)\<close>\<close>

record 'o interp =
  root :: "node list"
  vars :: "string \<rightharpoonup> 'o val"
  labels :: "string \<rightharpoonup> (node list \<times> nat)"
  call_stack_limit :: nat
  console :: "'o effect list"   \<comment> \<open>the terminal: what has been written and awaited so far\<close>

subsection \<open>Text of a value\<close>

function nat_digits :: "nat \<Rightarrow> string" where
  "nat_digits n =
     (if n < 10 then [char_of (48 + n)] else nat_digits (n div 10) @ [char_of (48 + n mod 10)])"
  by pat_completeness auto
termination
  by (relation "measure id") auto

declare nat_digits.simps [simp del]

definition int_str :: "int \<Rightarrow> string" where
  "int_str i = (if i < 0 then CHR ''-'' # nat_digits (nat (- i)) else nat_digits (nat i))"

fun val_str :: "('o, 'm) py_scheme \<Rightarrow> 'o val \<Rightarrow> string" where
  \<comment> \<open>\<^verbatim>\<open>str(v)\<close>\<close>
  "val_str P (VInt n) = int_str n"
| "val_str P (VStr s) = s"
| "val_str P (VBool b) = (if b then ''True'' else ''False'')"
| "val_str P (VObj ob) = obj_str P ob"

fun val_is_number :: "('o, 'm) py_scheme \<Rightarrow> 'o val \<Rightarrow> bool" where
  \<comment> \<open>\<^verbatim>\<open>is_number(v)\<close>: \<^verbatim>\<open>float(v)\<close> does not raise\<close>
  "val_is_number P (VInt n) = (int_float P n \<noteq> None)"
| "val_is_number P (VStr s) = is_number s"
| "val_is_number P (VBool b) = True"
| "val_is_number P (VObj ob) = (obj_float P ob \<noteq> None)"

definition str_to_float :: "('o, 'm) py_scheme \<Rightarrow> string \<Rightarrow> 'o val option" where
  "str_to_float P s = (if is_number s then Some (VObj (py_float P s)) else None)"

definition to_number_str :: "('o, 'm) py_scheme \<Rightarrow> string \<Rightarrow> 'o val option" where
  \<comment> \<open>\<^verbatim>\<open>to_number(s)\<close> on a text; \<open>None\<close> when the last \<^verbatim>\<open>float(s)\<close> raises\<close>
  "to_number_str P s =
     (if CHR ''.'' \<in> set s then str_to_float P s
      else (case py_int s of Some n \<Rightarrow> Some (VInt n) | None \<Rightarrow> str_to_float P s))"

fun to_number :: "('o, 'm) py_scheme \<Rightarrow> 'o val \<Rightarrow> 'o val option" where
  "to_number P (VInt n) = Some (VInt n)"
| "to_number P (VBool b) = Some (VInt (if b then 1 else 0))"
| "to_number P (VStr s) = to_number_str P s"
| "to_number P (VObj ob) =
     (if CHR ''.'' \<in> set (obj_str P ob) then map_option VObj (obj_float P ob)
      else (case obj_int P ob of
              Some n \<Rightarrow> Some (VInt n)
            | None \<Rightarrow> map_option VObj (obj_float P ob)))"

fun val_int :: "('o, 'm) py_scheme \<Rightarrow> 'o val \<Rightarrow> int option" where
  \<comment> \<open>\<^verbatim>\<open>int(v)\<close>\<close>
  "val_int P (VInt n) = Some n"
| "val_int P (VBool b) = Some (if b then 1 else 0)"
| "val_int P (VStr s) = py_int s"
| "val_int P (VObj ob) = obj_int P ob"

fun truthy :: "('o, 'm) py_scheme \<Rightarrow> 'o val \<Rightarrow> bool" where
  \<comment> \<open>\<^verbatim>\<open>bool(v)\<close>\<close>
  "truthy P (VInt n) = (n \<noteq> 0)"
| "truthy P (VStr s) = (s \<noteq> [])"
| "truthy P (VBool b) = b"
| "truthy P (VObj ob) = obj_truth P ob"

subsection \<open>The label index\<close>

fun index_of :: "'a list \<Rightarrow> 'a \<Rightarrow> nat option" where
  \<comment> \<open>\<^verbatim>\<open>lst.index(x)\<close>; \<open>None\<close> is \<^verbatim>\<open>ValueError\<close>\<close>
  "index_of [] x = None"
| "index_of (y # ys) x = (if y = x then Some 0 else map_option Suc (index_of ys x))"

fun index_nodes :: "node list \<Rightarrow> node list \<Rightarrow> nat
    \<Rightarrow> (string \<rightharpoonup> (node list \<times> nat)) \<Rightarrow> (string \<rightharpoonup> (node list \<times> nat))"
and index_node :: "node list \<Rightarrow> node \<Rightarrow> nat
    \<Rightarrow> (string \<rightharpoonup> (node list \<times> nat)) \<Rightarrow> (string \<rightharpoonup> (node list \<times> nat))"
and index_parts :: "part list
    \<Rightarrow> (string \<rightharpoonup> (node list \<times> nat)) \<Rightarrow> (string \<rightharpoonup> (node list \<times> nat))"
where
  \<comment> \<open>\<^verbatim>\<open>_index_labels(node_list)\<close>: \<open>parent\<close> is the whole list, the second argument what is
      left of it from index \<open>idx\<close> on\<close>
  "index_nodes parent [] idx labs = labs"
| "index_nodes parent (n # ns) idx labs =
     index_nodes parent ns (Suc idx) (index_node parent n idx labs)"
| "index_node parent (Label name raw) idx labs =
     labs(name \<mapsto> (parent, (case index_of parent (Label name raw) of Some i \<Rightarrow> i | None \<Rightarrow> idx) + 1))"
| "index_node parent (Loop pa raw cs) idx labs = index_nodes cs cs 0 labs"
| "index_node parent (IfChain ps raw) idx labs = index_parts ps labs"
| "index_node parent (IfPart (Part kd c cs raw)) idx labs = index_nodes cs cs 0 labs"
| "index_node parent (Stmt raw) idx labs = labs"
| "index_parts [] labs = labs"
| "index_parts (Part kd c cs raw # ps) labs = index_parts ps (index_nodes cs cs 0 labs)"

definition interp_init :: "node list \<Rightarrow> 'o interp" where
  \<comment> \<open>\<^verbatim>\<open>Interpreter.__init__\<close>\<close>
  "interp_init r =
     \<lparr>root = r, vars = Map.empty, labels = index_nodes r r 0 Map.empty,
      call_stack_limit = 10000, console = []\<rparr>"

section \<open>Expressions\<close>

function sub_idents :: "(string \<Rightarrow> string) \<Rightarrow> bool \<Rightarrow> string \<Rightarrow> string" where
  \<comment> \<open>\<^verbatim>\<open>re.sub(r'\b[A-Za-z_]\w*\b', f, text)\<close>. The flag says that the character before is
      a word character: a match starts at a letter or underscore that follows none, and
      takes the whole run of word characters.\<close>
  "sub_idents f pw [] = []"
| "sub_idents f pw (c # cs) =
     (if \<not> pw \<and> is_ident_start c
      then f (c # takeWhile is_word cs) @ sub_idents f True (dropWhile is_word cs)
      else c # sub_idents f (is_word c) cs)"
  by pat_completeness auto
termination
  by (relation "measure (\<lambda>(f, pw, s). length s)")
     (auto simp: length_dropWhile_le less_Suc_eq_le)

fun subst_value :: "('o, 'm) py_scheme \<Rightarrow> 'o val \<Rightarrow> string" where
  \<comment> \<open>what \<^verbatim>\<open>repl_var\<close> writes for a stored value\<close>
  "subst_value P (VStr s) = (if is_number s then s else str_repr P s)"
| "subst_value P (VInt n) = int_str n"
| "subst_value P (VBool b) = (if b then ''True'' else ''False'')"
| "subst_value P (VObj ob) = (if obj_is_float P ob then obj_str P ob else obj_repr P ob)"

definition repl_var :: "('o, 'm) py_scheme \<Rightarrow> (string \<rightharpoonup> 'o val) \<Rightarrow> string \<Rightarrow> string" where
  "repl_var P vs name =
     (if name = ''and'' \<or> name = ''or'' \<or> name = ''not'' then name
      else (case vs name of Some v \<Rightarrow> subst_value P v | None \<Rightarrow> ''0''))"

definition safe_expr :: "('o, 'm) py_scheme \<Rightarrow> (string \<rightharpoonup> 'o val) \<Rightarrow> string \<Rightarrow> string" where
  \<comment> \<open>the text \<^verbatim>\<open>eval_expr\<close> hands to \<^verbatim>\<open>eval\<close>\<close>
  "safe_expr P vs expr = sub_idents (repl_var P vs) False expr"

definition eval_expr :: "('o, 'm) py_scheme \<Rightarrow> (string \<rightharpoonup> 'o val) \<Rightarrow> string \<Rightarrow> exn + 'o val" where
  "eval_expr P vs expr =
     (case py_eval P (safe_expr P vs expr) of
        Inl msg \<Rightarrow> Inl (BadExpression expr msg)
      | Inr v \<Rightarrow> Inr v)"

fun norm_eq :: "char option \<Rightarrow> string \<Rightarrow> string" where
  \<comment> \<open>\<^verbatim>\<open>re.sub(r'(?<![=!<>])\s=\s(?!=)', '==', cond)\<close>; the first argument is the character
      before the current position\<close>
  "norm_eq prev (a # b # c # rest) =
     (if is_space a \<and> b = CHR ''='' \<and> is_space c
         \<and> prev \<notin> {Some CHR ''='', Some CHR ''!'', Some CHR ''<'', Some CHR ''>''}
         \<and> (case rest of [] \<Rightarrow> True | d # ds \<Rightarrow> d \<noteq> CHR ''='')
      then ''=='' @ norm_eq (Some c) rest
      else a # norm_eq (Some a) (b # c # rest))"
| "norm_eq prev s = s"

fun cond_value :: "('o, 'm) py_scheme \<Rightarrow> 'o val \<Rightarrow> string" where
  \<comment> \<open>what \<^verbatim>\<open>rv\<close> writes for a stored value in a condition\<close>
  "cond_value P (VStr s) = str_repr P s"
| "cond_value P v = val_str P v"

definition rv :: "('o, 'm) py_scheme \<Rightarrow> (string \<rightharpoonup> 'o val) \<Rightarrow> string \<Rightarrow> string" where
  "rv P vs name = (case vs name of Some v \<Rightarrow> cond_value P v | None \<Rightarrow> ''0'')"

fun eval_cond :: "('o, 'm) py_scheme \<Rightarrow> (string \<rightharpoonup> 'o val) \<Rightarrow> string option \<Rightarrow> exn + bool" where
  \<comment> \<open>the \<^verbatim>\<open>try\<close> block of a conditional arm; \<^verbatim>\<open>re.sub\<close> on a missing condition raises\<close>
  "eval_cond P vs None = Inl (BadCondition None ''TypeError'')"
| "eval_cond P vs (Some cond) =
     (case py_eval P (sub_idents (rv P vs) False (norm_eq None cond)) of
        Inl msg \<Rightarrow> Inl (BadCondition (Some cond) msg)
      | Inr v \<Rightarrow> Inr (truthy P v))"

section \<open>Statements\<close>

text \<open>
  The terminal is a sink of effects: \<^verbatim>\<open>print\<close>, \<^verbatim>\<open>clear_console\<close>, \<^verbatim>\<open>set_color_ansi\<close>,
  \<^verbatim>\<open>input\<close> and \<^verbatim>\<open>time.sleep\<close> each add one entry to \<open>console\<close> and return. What the
  sink does with an entry (the ANSI code of a color, the \<^verbatim>\<open>rgb(...)\<close> form, the length of
  a sleep) is outside this theory. \<^verbatim>\<open>resolve_value\<close> is not called by the interpreter and
  has no counterpart here.
\<close>

definition tail_match :: "string \<Rightarrow> string option option" where
  \<comment> \<open>\<^verbatim>\<open>(?:\s+(.*))?$\<close>: group 3 when the rest of the line matches. The group is tried
      first, with all the whitespace given to \<^verbatim>\<open>\s+\<close>.\<close>
  "tail_match r =
     (if r = [] then Some None
      else if is_space (hd r) then
        (let t = dropWhile is_space r in
         if line_rest_ok t then Some (Some (until_nl t)) else None)
      else None)"

definition stmt_match :: "string \<Rightarrow> (string \<times> string option \<times> string option) option" where
  \<comment> \<open>\<^verbatim>\<open>^([A-Za-z_]\w*)(?:\(([^)]*)\))?(?:\s+(.*))?$\<close>: groups 1, 2 and 3\<close>
  "stmt_match raw =
     (case split_ident raw of
        None \<Rightarrow> None
      | Some (w, r) \<Rightarrow>
          (case paren_group r of
             Some (pa, r2) \<Rightarrow>
               (case tail_match r2 of
                  Some g3 \<Rightarrow> Some (w, Some pa, g3)
                | None \<Rightarrow> map_option (\<lambda>g3. (w, None, g3)) (tail_match r))
           | None \<Rightarrow> map_option (\<lambda>g3. (w, None, g3)) (tail_match r)))"

definition stmt_rest :: "string option \<Rightarrow> string option \<Rightarrow> string" where
  \<comment> \<open>\<^verbatim>\<open>rest = m.group(3) or ""; if paren_args and rest.strip() == "": rest = paren_args\<close>\<close>
  "stmt_rest paren_args g3 =
     (let rest = (case g3 of None \<Rightarrow> [] | Some r \<Rightarrow> r) in
      case paren_args of
        None \<Rightarrow> rest
      | Some pa \<Rightarrow> if pa \<noteq> [] \<and> strip rest = [] then pa else rest)"

fun tokenize_from :: "string \<Rightarrow> string \<Rightarrow> bool \<Rightarrow> char option \<Rightarrow> string list \<Rightarrow> string list" where
  \<comment> \<open>the loop of \<^verbatim>\<open>tokenize_text_args\<close>: text left, \<open>cur\<close>, \<open>in_quote\<close>, \<open>quote_char\<close>, \<open>parts\<close>\<close>
  "tokenize_from [] cur inq qc parts =
     (if strip cur \<noteq> [] then parts @ [strip cur] else parts)"
| "tokenize_from (ch # s) cur inq qc parts =
     (if inq then tokenize_from s (cur @ [ch]) (Some ch \<noteq> qc) qc parts
      else if ch = CHR 0x22 \<or> ch = CHR 0x27 then tokenize_from s (cur @ [ch]) True (Some ch) parts
      else if ch = CHR '','' then tokenize_from s [] False qc (parts @ [strip cur])
      else tokenize_from s (cur @ [ch]) False qc parts)"

definition tokenize_text_args :: "string \<Rightarrow> string list" where
  "tokenize_text_args argstr = tokenize_from argstr [] False None []"

definition text_piece :: "('o, 'm) py_scheme \<Rightarrow> (string \<rightharpoonup> 'o val) \<Rightarrow> string \<Rightarrow> string" where
  \<comment> \<open>what one argument of \<^verbatim>\<open>text\<close> adds to the line\<close>
  "text_piece P vs p0 =
     (let p = strip p0 in
      if p = [] then []
      else if quoted p then unquote p
      else (case vs p of None \<Rightarrow> [] | Some v \<Rightarrow> val_str P v))"

fun value_from :: "nat \<Rightarrow> string \<Rightarrow> string option" where
  \<comment> \<open>\<^verbatim>\<open>\s*(.+)$\<close> on the text after the equals sign: \<^verbatim>\<open>\s*\<close> takes \<open>j\<close> characters, then
      fewer; group 2 must start with a character that is not a newline\<close>
  "value_from 0 s =
     (if s \<noteq> [] \<and> hd s \<noteq> nl \<and> line_rest_ok s then Some (until_nl s) else None)"
| "value_from (Suc j) s =
     (let t = drop (Suc j) s in
      if t \<noteq> [] \<and> hd t \<noteq> nl \<and> line_rest_ok t then Some (until_nl t) else value_from j s)"

definition assign_match :: "string \<Rightarrow> (string \<times> string) option" where
  \<comment> \<open>\<^verbatim>\<open>^([A-Za-z_]\w*)\s*=\s*(.+)$\<close>: groups 1 and 2\<close>
  "assign_match rest =
     (case split_ident rest of
        None \<Rightarrow> None
      | Some (w, r) \<Rightarrow>
          (case dropWhile is_space r of
             [] \<Rightarrow> None
           | c # s \<Rightarrow>
               if c = CHR ''='' then map_option (Pair w) (value_from (length (takeWhile is_space s)) s)
               else None))"

definition has_operator :: "string \<Rightarrow> bool" where
  \<comment> \<open>\<^verbatim>\<open>re.search(r'[\+\-\*/()]', s)\<close>\<close>
  "has_operator s = list_ex (\<lambda>c. c \<in> set ''+-*/()'') s"

definition strip_call :: "string \<Rightarrow> string" where
  \<comment> \<open>\<^verbatim>\<open>re.sub(r'\(\)\s*$', '', label)\<close> on a stripped label\<close>
  "strip_call l = (if endswith l ''()'' then take (length l - 2) l else l)"

definition set_var :: "string \<Rightarrow> 'o val \<Rightarrow> 'o interp \<Rightarrow> 'o interp" where
  "set_var name v st = st\<lparr>vars := (vars st)(name \<mapsto> v)\<rparr>"

definition emit :: "'o effect \<Rightarrow> 'o interp \<Rightarrow> 'o interp" where
  "emit e st = st\<lparr>console := console st @ [e]\<rparr>"

datatype signal =
    RNone                                             \<comment> \<open>\<^verbatim>\<open>None\<close>\<close>
  | RGoto "string option" "(node list \<times> nat) option"   \<comment> \<open>\<^verbatim>\<open>{"action":"goto","label":..,"jump":..}\<close>\<close>
  | RReturn                                           \<comment> \<open>\<^verbatim>\<open>{"action":"return_to_caller"}\<close>\<close>

datatype lres =
    LJump "node list" nat     \<comment> \<open>\<^verbatim>\<open>("jump", parent, idx)\<close>\<close>
  | LReturn                   \<comment> \<open>\<^verbatim>\<open>("return",)\<close>\<close>
  | LDone                     \<comment> \<open>\<^verbatim>\<open>("done",)\<close>\<close>

definition exec_set :: "('o, 'm) py_scheme \<Rightarrow> string \<Rightarrow> string \<Rightarrow> 'o interp
    \<Rightarrow> (exn \<times> 'o interp) + (signal \<times> 'o interp)" where
  "exec_set P raw rest st =
     (case assign_match rest of
        None \<Rightarrow> Inl (BadSet raw, st)
      | Some (name, g2) \<Rightarrow>
          (let val_raw = strip g2 in
           if quoted val_raw then Inr (RNone, set_var name (VStr (unquote val_raw)) st)
           else if is_number val_raw then
             (case to_number_str P val_raw of
                Some v \<Rightarrow> Inr (RNone, set_var name v st)
              | None \<Rightarrow> Inl (NumberError, st))
           else if has_operator val_raw then
             (case eval_expr P (vars st) val_raw of
                Inl e \<Rightarrow> Inl (e, st)
              | Inr v \<Rightarrow> Inr (RNone, set_var name v st))
           else
             Inr (RNone,
               set_var name (case vars st val_raw of Some v \<Rightarrow> v | None \<Rightarrow> VStr val_raw) st)))"

definition exec_math :: "('o, 'm) py_scheme \<Rightarrow> string \<Rightarrow> string \<Rightarrow> 'o interp
    \<Rightarrow> (exn \<times> 'o interp) + (signal \<times> 'o interp)" where
  "exec_math P raw rest st =
     (case assign_match rest of
        None \<Rightarrow> Inl (BadMath raw, st)
      | Some (name, expr) \<Rightarrow>
          (case eval_expr P (vars st) expr of
             Inl e \<Rightarrow> Inl (e, st)
           | Inr v \<Rightarrow> Inr (RNone, set_var name v st)))"

definition exec_pause :: "('o, 'm) py_scheme \<Rightarrow> string \<Rightarrow> 'o interp \<Rightarrow> 'o interp" where
  "exec_pause P rest st =
     (let t = strip rest in
      if t = [] then emit WaitEnter st
      else if is_number t then emit (Sleep (VStr t)) st
      else
        (case vars st t of
           Some v \<Rightarrow> if val_is_number P v then emit (Sleep v) st else emit WaitEnter st
         | None \<Rightarrow> emit WaitEnter st))"

definition exec_cmd :: "('o, 'm) py_scheme \<Rightarrow> string \<Rightarrow> string \<Rightarrow> string \<Rightarrow> 'o interp
    \<Rightarrow> (exn \<times> 'o interp) + (signal \<times> 'o interp)" where
  \<comment> \<open>the \<^verbatim>\<open>if cmd == ...\<close> chain of \<^verbatim>\<open>run_node\<close>\<close>
  "exec_cmd P raw cmd rest st =
     (if cmd = ''text'' then
        Inr (RNone,
          emit (Print (concat (map (text_piece P (vars st)) (tokenize_text_args rest)))) st)
      else if cmd = ''echo'' then Inr (RNone, emit (Print rest) st)
      else if cmd = ''set'' then exec_set P raw rest st
      else if cmd = ''math'' then exec_math P raw rest st
      else if cmd = ''clear'' then Inr (RNone, emit ClearConsole st)
      else if cmd = ''goto'' then Inr (RGoto (Some (strip_call (strip rest))) None, st)
      else if cmd = ''pause'' then Inr (RNone, exec_pause P rest st)
      else if cmd = ''exit'' then Inl (SystemExit, st)
      else if cmd = ''color'' then Inr (RNone, emit (SetColor (strip rest)) st)
      else
        Inr (RNone,
          emit (Print (''Unknown command: '' @ cmd @ '' (raw: '' @ raw @ '')'')) st))"

definition exec_stmt :: "('o, 'm) py_scheme \<Rightarrow> string \<Rightarrow> 'o interp
    \<Rightarrow> (exn \<times> 'o interp) + (signal \<times> 'o interp)" where
  \<comment> \<open>\<^verbatim>\<open>run_node\<close> on a node of type \<^verbatim>\<open>"stmt"\<close>\<close>
  "exec_stmt P raw st =
     (case stmt_match raw of
        None \<Rightarrow> Inr (RNone, st)
      | Some (w, paren_args, g3) \<Rightarrow> exec_cmd P raw (lower w) (stmt_rest paren_args g3) st)"

section \<open>The execution engine\<close>

text \<open>
  \<^verbatim>\<open>run_node\<close> and \<^verbatim>\<open>run_stmt_list\<close> call each other, and a loop without a count is
  \<^verbatim>\<open>while True\<close>: a run need not return. The functions below take fuel, spent on every
  call and every loop turn; \<open>None\<close> says that the fuel ran out before the call returned. A
  result is \<open>Inl\<close> for a raised exception and \<open>Inr\<close> for a returned value, both with the
  interpreter's state at that moment.
\<close>

type_synonym ('a, 'o) outcome = "((exn \<times> 'o interp) + ('a \<times> 'o interp)) option"

definition loop_count :: "('o, 'm) py_scheme \<Rightarrow> (string \<rightharpoonup> 'o val) \<Rightarrow> string \<Rightarrow> int option" where
  \<comment> \<open>\<^verbatim>\<open>times\<close> of a counted loop; \<open>None\<close> when \<^verbatim>\<open>to_number\<close> or \<^verbatim>\<open>int\<close> raises\<close>
  "loop_count P vs param =
     (let p = strip param in
      if is_number p then Option.bind (to_number_str P p) (val_int P)
      else Option.bind (to_number P (case vs p of Some v \<Rightarrow> v | None \<Rightarrow> VInt 0)) (val_int P))"

fun body_signal :: "lres \<Rightarrow> signal" where
  \<comment> \<open>what a conditional arm returns for its body's result\<close>
  "body_signal (LJump parent idx) = RGoto None (Some (parent, idx))"
| "body_signal LReturn = RReturn"
| "body_signal LDone = RNone"

function (sequential) run_node :: "('o, 'm) py_scheme \<Rightarrow> nat \<Rightarrow> node \<Rightarrow> 'o interp \<Rightarrow> (signal, 'o) outcome"
and run_stmt_list :: "('o, 'm) py_scheme \<Rightarrow> nat \<Rightarrow> node list \<Rightarrow> nat \<Rightarrow> 'o interp \<Rightarrow> (lres, 'o) outcome"
and loop_forever :: "('o, 'm) py_scheme \<Rightarrow> nat \<Rightarrow> node list \<Rightarrow> 'o interp \<Rightarrow> (signal, 'o) outcome"
and loop_times :: "('o, 'm) py_scheme \<Rightarrow> nat \<Rightarrow> nat \<Rightarrow> node list \<Rightarrow> 'o interp \<Rightarrow> (signal, 'o) outcome"
and run_parts :: "('o, 'm) py_scheme \<Rightarrow> nat \<Rightarrow> part list \<Rightarrow> 'o interp \<Rightarrow> (signal, 'o) outcome"
where
  "run_node P 0 n st = None"
| "run_node P (Suc f) (Label name raw) st = Some (Inr (RNone, st))"
| "run_node P (Suc f) (Stmt raw) st = Some (exec_stmt P raw st)"
| "run_node P (Suc f) (Loop None raw cs) st = loop_forever P f cs st"
| "run_node P (Suc f) (Loop (Some param) raw cs) st =
     (if param = [] then loop_forever P f cs st
      else
        (case loop_count P (vars st) param of
           None \<Rightarrow> Some (Inl (NumberError, st))
         | Some cnt \<Rightarrow> loop_times P f (nat cnt) cs st))"
| "run_node P (Suc f) (IfChain ps raw) st = run_parts P f ps st"
| "run_node P (Suc f) (IfPart pt) st = Some (Inr (RNone, st))"

| "run_stmt_list P 0 lst i st = None"
| "run_stmt_list P (Suc f) lst i st =
     (if i < length lst then
        (case run_node P f (lst ! i) st of
           None \<Rightarrow> None
         | Some (Inl e) \<Rightarrow> Some (Inl e)
         | Some (Inr (RGoto None j, st')) \<Rightarrow> Some (Inl (UnknownLabel None, st'))
         | Some (Inr (RGoto (Some label) j, st')) \<Rightarrow>
             (case labels st' label of
                None \<Rightarrow> Some (Inl (UnknownLabel (Some label), st'))
              | Some (parent, idx) \<Rightarrow> Some (Inr (LJump parent idx, st')))
         | Some (Inr (RReturn, st')) \<Rightarrow> Some (Inr (LReturn, st'))
         | Some (Inr (RNone, st')) \<Rightarrow> run_stmt_list P f lst (Suc i) st')
      else Some (Inr (LDone, st)))"

| "loop_forever P 0 cs st = None"
| "loop_forever P (Suc f) cs st =
     (case run_stmt_list P f cs 0 st of
        None \<Rightarrow> None
      | Some (Inl e) \<Rightarrow> Some (Inl e)
      | Some (Inr (LJump parent idx, st')) \<Rightarrow> Some (Inr (RGoto None (Some (parent, idx)), st'))
      | Some (Inr (LDone, st')) \<Rightarrow> loop_forever P f cs st'
      | Some (Inr (LReturn, st')) \<Rightarrow> Some (Inr (RReturn, st')))"

| "loop_times P 0 k cs st = None"
| "loop_times P (Suc f) 0 cs st = Some (Inr (RNone, st))"
| "loop_times P (Suc f) (Suc k) cs st =
     (case run_stmt_list P f cs 0 st of
        None \<Rightarrow> None
      | Some (Inl e) \<Rightarrow> Some (Inl e)
      | Some (Inr (LJump parent idx, st')) \<Rightarrow> Some (Inr (RGoto None (Some (parent, idx)), st'))
      | Some (Inr (LReturn, st')) \<Rightarrow> Some (Inr (RReturn, st'))
      | Some (Inr (LDone, st')) \<Rightarrow> loop_times P f k cs st')"

| "run_parts P 0 ps st = None"
| "run_parts P (Suc f) [] st = Some (Inr (RNone, st))"
| "run_parts P (Suc f) (Part kd c cs raw # ps) st =
     (if kd = KElse then
        (case run_stmt_list P f cs 0 st of
           None \<Rightarrow> None
         | Some (Inl e) \<Rightarrow> Some (Inl e)
         | Some (Inr (r, st')) \<Rightarrow> Some (Inr (body_signal r, st')))
      else
        (case eval_cond P (vars st) c of
           Inl e \<Rightarrow> Some (Inl (e, st))
         | Inr ok \<Rightarrow>
             if ok then
               (case run_stmt_list P f cs 0 st of
                  None \<Rightarrow> None
                | Some (Inl e) \<Rightarrow> Some (Inl e)
                | Some (Inr (r, st')) \<Rightarrow> Some (Inr (body_signal r, st')))
             else run_parts P f ps st))"
  by pat_completeness auto
termination
  by (relation "measure (case_sum (case_sum (\<lambda>p. fst (snd p)) (\<lambda>p. fst (snd p)))
        (case_sum (\<lambda>p. fst (snd p)) (case_sum (\<lambda>p. fst (snd p)) (\<lambda>p. fst (snd p)))))") auto

function (sequential) run_from :: "('o, 'm) py_scheme \<Rightarrow> nat \<Rightarrow> node list \<Rightarrow> nat \<Rightarrow> nat \<Rightarrow> 'o interp
    \<Rightarrow> ((exn \<times> 'o interp) + 'o interp) option" where
  \<comment> \<open>the \<^verbatim>\<open>while True\<close> loop of \<^verbatim>\<open>run\<close>, from \<open>cur_list\<close>, \<open>idx\<close> and \<open>steps\<close>\<close>
  "run_from P 0 cur idx steps st = None"
| "run_from P (Suc f) cur idx steps st =
     (if length cur \<le> idx then Some (Inr st)
      else
        (case run_node P f (cur ! idx) st of
           None \<Rightarrow> None
         | Some (Inl e) \<Rightarrow> Some (Inl e)
         | Some (Inr (res, st')) \<Rightarrow>
             (case res of
                RGoto (Some label) j \<Rightarrow>
                  (case labels st' label of
                     None \<Rightarrow> Some (Inl (UnknownLabel (Some label), st'))
                   | Some (parent, new_idx) \<Rightarrow> run_from P f parent new_idx steps st')
              | RGoto None (Some (parent, new_idx)) \<Rightarrow> run_from P f parent new_idx steps st'
              | _ \<Rightarrow>
                  if call_stack_limit st' < steps + 1 then Some (Inl (StepLimit, st'))
                  else run_from P f cur (idx + 1) (steps + 1) st')))"
  by pat_completeness auto
termination
  by (relation "measure (\<lambda>p. fst (snd p))") auto

definition run :: "('o, 'm) py_scheme \<Rightarrow> nat \<Rightarrow> 'o interp \<Rightarrow> ((exn \<times> 'o interp) + 'o interp) option" where
  "run P fuel st = run_from P fuel (root st) 0 0 st"

definition run_lines :: "('o, 'm) py_scheme \<Rightarrow> nat \<Rightarrow> string list \<Rightarrow> ((exn \<times> 'o interp) + 'o interp) option" where
  \<comment> \<open>\<^verbatim>\<open>run_script_text\<close> and \<^verbatim>\<open>run_file_path\<close>, from the list of lines on\<close>
  "run_lines P fuel lines = run P fuel (interp_init (parse_lines lines))"

section \<open>Scripts and notions used in the statements\<close>

definition nested_goto_script :: "string list" where
  \<comment> \<open>a \<^verbatim>\<open>goto\<close> in a loop that is itself in a loop; the label is defined at the top level\<close>
  "nested_goto_script =
     [''loop(1):'',
      ''    loop(1):'',
      ''        goto done'',
      ''done():'']"

definition forever_script :: "string list" where
  \<comment> \<open>a loop without a count over one \<^verbatim>\<open>text\<close> statement\<close>
  "forever_script = [''loop:'', ''    text \"hi\"'']"


definition assign_script :: "string list" where
  "assign_script = [''set x = 5'', ''math x = x + 2'']"





definition starts_ident :: "string \<Rightarrow> bool" where
  "starts_ident raw = (case raw of [] \<Rightarrow> False | c # cs \<Rightarrow> is_ident_start c)"

definition known_cmds :: "string list" where
  "known_cmds =
     [''text'', ''echo'', ''set'', ''math'', ''clear'', ''goto'', ''pause'', ''exit'', ''color'']"

definition effect_only :: "string \<Rightarrow> bool" where
  \<comment> \<open>a statement whose command is not \<^verbatim>\<open>set\<close>, \<^verbatim>\<open>math\<close>, \<^verbatim>\<open>goto\<close> or \<^verbatim>\<open>exit\<close>: it does not
      assign, jump, exit or raise\<close>
  "effect_only raw =
     (case stmt_match raw of
        None \<Rightarrow> True
      | Some (w, pa, g3) \<Rightarrow> lower w \<notin> set [''set'', ''math'', ''goto'', ''exit''])"

fun plain_node :: "node \<Rightarrow> bool" where
  "plain_node (Stmt raw) = effect_only raw"
| "plain_node n = False"

fun counted_spec :: "nat \<Rightarrow> ('s \<Rightarrow> (exn \<times> 's) + (lres \<times> 's)) \<Rightarrow> 's \<Rightarrow> (exn \<times> 's) + (signal \<times> 's)" where
  \<comment> \<open>the counted loop as the specification words it: the body \<open>b\<close> is run \<open>n\<close> times,
      each time from the state the pass before left; a pass that ends in a jump or a
      return-to-caller (or raises) ends the loop with that outcome\<close>
  "counted_spec 0 b s = Inr (RNone, s)"
| "counted_spec (Suc n) b s =
     (case b s of
        Inl e \<Rightarrow> Inl e
      | Inr (LDone, s') \<Rightarrow> counted_spec n b s'
      | Inr (LJump parent idx, s') \<Rightarrow> Inr (RGoto None (Some (parent, idx)), s')
      | Inr (LReturn, s') \<Rightarrow> Inr (RReturn, s'))"

definition same_program :: "'o interp \<Rightarrow> 'o interp \<Rightarrow> bool" where
  \<comment> \<open>the two states hold the same tree, label table and step ceiling\<close>
  "same_program st st' =
     (root st' = root st \<and> labels st' = labels st \<and> call_stack_limit st' = call_stack_limit st)"

fun final_state :: "(exn \<times> 'o interp) + ('a \<times> 'o interp) \<Rightarrow> 'o interp" where
  "final_state (Inl (e, s)) = s"
| "final_state (Inr (x, s)) = s"

fun end_state :: "(exn \<times> 'o interp) + 'o interp \<Rightarrow> 'o interp" where
  "end_state (Inl (e, s)) = s"
| "end_state (Inr s) = s"

subsection \<open>A runtime to instantiate the statements with\<close>

text \<open>
  Where a statement is shown at a concrete input, the runtime is \<open>sum_runtime\<close>: it has no
  objects beyond integers, texts and booleans, and its \<^verbatim>\<open>eval\<close> knows sums of decimal
  literals only, which it adds up as Python does.
\<close>

fun split_plus :: "string \<Rightarrow> string \<Rightarrow> string list" where
  \<comment> \<open>the text cut at every \<^verbatim>\<open>+\<close>; the first argument is the piece being read\<close>
  "split_plus cur [] = [cur]"
| "split_plus cur (c # cs) =
     (if c = CHR ''+'' then cur # split_plus [] cs else split_plus (cur @ [c]) cs)"

definition eval_sum :: "string \<Rightarrow> string + unit val" where
  "eval_sum s =
     (let parts = map py_int (split_plus [] s) in
      if list_all (\<lambda>x. x \<noteq> None) parts then Inr (VInt (sum_list (map the parts)))
      else Inl ''invalid syntax'')"

definition sum_runtime :: "unit py" where
  "sum_runtime =
     \<lparr>py_eval = eval_sum, py_float = (\<lambda>s. ()), int_float = (\<lambda>n. None),
      obj_float = (\<lambda>ob. None), obj_int = (\<lambda>ob. None), obj_is_float = (\<lambda>ob. False),
      obj_str = (\<lambda>ob. []), obj_repr = (\<lambda>ob. []), obj_truth = (\<lambda>ob. False),
      str_repr = (\<lambda>s. CHR 0x27 # s @ [CHR 0x27])\<rparr>"

(*DEFS-END*)

section \<open>Facts used by the evaluations\<close>

lemma goto_done_stmt: "exec_stmt P ''goto done'' st = Inr (RGoto (Some ''done'') None, st)"
proof -
  have "stmt_match ''goto done'' = Some (''goto'', None, Some ''done'')" by code_simp
  moreover have "lower ''goto'' = ''goto''" by code_simp
  moreover have "strip_call (strip ''done'') = ''done''" by code_simp
  ultimately show ?thesis by (simp add: exec_stmt_def exec_cmd_def stmt_rest_def)
qed

lemma loop_count_one: "loop_count P vs ''1'' = Some 1"
proof -
  have "is_number (strip ''1'')" by code_simp
  moreover have "py_int (strip ''1'') = Some 1" by code_simp
  moreover have "CHR ''.'' \<notin> set (strip ''1'')" by code_simp
  ultimately show ?thesis by (simp add: loop_count_def to_number_str_def)
qed

lemma parse_nested_goto_script:
  "parse_lines nested_goto_script =
     [Loop (Some ''1'') ''loop(1):'' [Loop (Some ''1'') ''loop(1):'' [Stmt ''goto done'']],
      Label ''done'' ''done():'']"
  by code_simp

lemma goto_body_jumps:
  assumes "labels st ''done'' = Some (parent, idx)"
  shows "run_stmt_list P (Suc (Suc f)) [Stmt ''goto done''] 0 st = Some (Inr (LJump parent idx, st))"
  using assms by (simp add: goto_done_stmt)

lemma inner_loop_signal:
  assumes "labels st ''done'' = Some (parent, idx)"
  shows "run_node P (Suc (Suc (Suc (Suc f)))) (Loop (Some ''1'') raw [Stmt ''goto done'']) st
         = Some (Inr (RGoto None (Some (parent, idx)), st))"
  using goto_body_jumps [OF assms, of P f] by (simp add: loop_count_one)

lemma outer_body_raises:
  assumes "labels st ''done'' = Some (parent, idx)"
  shows "run_stmt_list P (Suc (Suc (Suc (Suc (Suc f))))) [Loop (Some ''1'') raw [Stmt ''goto done'']] 0 st
         = Some (Inl (UnknownLabel None, st))"
  using inner_loop_signal [OF assms, of P f raw] by simp

lemma outer_loop_raises:
  assumes "labels st ''done'' = Some (parent, idx)"
  shows "run_node P (Suc (Suc (Suc (Suc (Suc (Suc (Suc f)))))))
           (Loop (Some ''1'') raw2 [Loop (Some ''1'') raw [Stmt ''goto done'']]) st
         = Some (Inl (UnknownLabel None, st))"
  using outer_body_raises [OF assms, of P f raw] by (simp add: loop_count_one)

lemma labels_nested_goto:
  "labels (interp_init (parse_lines nested_goto_script) :: 'o interp) ''done''
     = Some (parse_lines nested_goto_script, 2)"
  by (simp add: parse_nested_goto_script interp_init_def)

section \<open>C1: a jump out of two nested bodies\<close>

text \<open>
  A loop or a conditional that passes a jump on returns a goto without a label, the target
  being in the \<^verbatim>\<open>"jump"\<close> entry. The loop of \<^verbatim>\<open>run\<close> follows such a target
  (\<open>top_level_takes_jump\<close>); \<^verbatim>\<open>run_stmt_list\<close> reads the label only, so in any statement
  list run by \<^verbatim>\<open>run_stmt_list\<close>, that is in any body, a loop or conditional whose own body
  jumps makes the list raise \<^verbatim>\<open>Unknown label: None\<close> (\<open>jump_through_two_bodies_raises\<close>).
\<close>

lemma body_signal_label: "body_signal res = RGoto l j \<Longrightarrow> l = None"
  by (cases res) auto

lemma loop_forever_label:
  "loop_forever P f cs st = Some (Inr (RGoto l j, st')) \<Longrightarrow> l = None"
proof (induction f arbitrary: st)
  case 0
  then show ?case by simp
next
  case (Suc f)
  show ?case
  proof (cases "run_stmt_list P f cs 0 st")
    case None
    with Suc.prems show ?thesis by simp
  next
    case (Some x)
    show ?thesis
    proof (cases x)
      case (Inl e)
      with Suc.prems Some show ?thesis by simp
    next
      case (Inr p)
      obtain res s1 where p: "p = (res, s1)" by (cases p)
      show ?thesis
      proof (cases res)
        case LDone
        with Suc.prems Some Inr p have "loop_forever P f cs s1 = Some (Inr (RGoto l j, st'))"
          by simp
        then show ?thesis by (rule Suc.IH)
      next
        case (LJump parent idx)
        with Suc.prems Some Inr p show ?thesis by simp
      next
        case LReturn
        with Suc.prems Some Inr p show ?thesis by simp
      qed
    qed
  qed
qed

lemma loop_times_label:
  "loop_times P f k cs st = Some (Inr (RGoto l j, st')) \<Longrightarrow> l = None"
proof (induction f arbitrary: k st)
  case 0
  then show ?case by simp
next
  case (Suc f)
  show ?case
  proof (cases k)
    case 0
    with Suc.prems show ?thesis by simp
  next
    case (Suc k')
    show ?thesis
    proof (cases "run_stmt_list P f cs 0 st")
      case None
      with Suc.prems Suc show ?thesis by simp
    next
      case (Some x)
      show ?thesis
      proof (cases x)
        case (Inl e)
        with Suc.prems Suc Some show ?thesis by simp
      next
        case (Inr p)
        obtain res s1 where p: "p = (res, s1)" by (cases p)
        show ?thesis
        proof (cases res)
          case LDone
          with Suc.prems Suc Some Inr p
          have "loop_times P f k' cs s1 = Some (Inr (RGoto l j, st'))" by simp
          then show ?thesis by (rule Suc.IH)
        next
          case (LJump parent idx)
          with Suc.prems Suc Some Inr p show ?thesis by simp
        next
          case LReturn
          with Suc.prems Suc Some Inr p show ?thesis by simp
        qed
      qed
    qed
  qed
qed

lemma arm_label:
  assumes "(case run_stmt_list P f cs 0 st of None \<Rightarrow> None | Some (Inl e) \<Rightarrow> Some (Inl e)
         | Some (Inr (res, s1)) \<Rightarrow> Some (Inr (body_signal res, s1))) = Some (Inr (RGoto l j, st'))"
  shows "l = None"
proof (cases "run_stmt_list P f cs 0 st")
  case None
  with assms show ?thesis by simp
next
  case (Some x)
  show ?thesis
  proof (cases x)
    case (Inl e)
    with assms Some show ?thesis by simp
  next
    case (Inr p)
    obtain res s1 where p: "p = (res, s1)" by (cases p)
    with assms Some Inr have "body_signal res = RGoto l j" by simp
    then show ?thesis by (rule body_signal_label)
  qed
qed

lemma run_parts_label:
  "run_parts P f ps st = Some (Inr (RGoto l j, st')) \<Longrightarrow> l = None"
proof (induction f arbitrary: ps)
  case 0
  then show ?case by simp
next
  case (Suc f)
  show ?case
  proof (cases ps)
    case Nil
    with Suc.prems show ?thesis by simp
  next
    case (Cons pt rest)
    obtain kd c cs raw where pt: "pt = Part kd c cs raw" by (cases pt)
    show ?thesis
    proof (cases "kd = KElse")
      case True
      with Suc.prems Cons pt show ?thesis using arm_label [of P f cs st l j st'] by simp
    next
      case False
      show ?thesis
      proof (cases "eval_cond P (vars st) c")
        case (Inl e)
        with Suc.prems Cons pt False show ?thesis by simp
      next
        case (Inr ok)
        show ?thesis
        proof (cases ok)
          case True
          with Suc.prems Cons pt False Inr show ?thesis
            using arm_label [of P f cs st l j st'] by simp
        next
          case no: False
          with Suc.prems Cons pt False Inr
          have "run_parts P f rest st = Some (Inr (RGoto l j, st'))" by simp
          then show ?thesis by (rule Suc.IH)
        qed
      qed
    qed
  qed
qed

lemma compound_signal_label:
  assumes "run_node P f n st = Some (Inr (RGoto l j, st'))"
    and "n = Loop pa raw cs \<or> n = IfChain ps raw"
  shows "l = None"
proof (cases f)
  case 0
  with assms(1) show ?thesis by simp
next
  case (Suc g)
  from assms(2) show ?thesis
  proof
    assume n: "n = Loop pa raw cs"
    show ?thesis
    proof (cases pa)
      case None
      with assms(1) Suc n show ?thesis using loop_forever_label [of P g cs st l j st'] by simp
    next
      case (Some param)
      with assms(1) Suc n show ?thesis
        using loop_forever_label [of P g cs st l j st'] loop_times_label [of P g _ cs st l j st']
        by (cases "param = []"; cases "loop_count P (vars st) param") auto
    qed
  next
    assume "n = IfChain ps raw"
    with assms(1) Suc show ?thesis using run_parts_label [of P g ps st l j st'] by simp
  qed
qed

lemma jump_through_two_bodies_raises:
  assumes "run_node P f (lst ! i) st = Some (Inr (RGoto l j, st'))"
    and "lst ! i = Loop pa raw cs \<or> lst ! i = IfChain ps raw"
    and "i < length lst"
  shows "run_stmt_list P (Suc f) lst i st = Some (Inl (UnknownLabel None, st'))"
proof -
  from compound_signal_label [OF assms(1,2)] have "l = None" .
  with assms(1,3) show ?thesis by simp
qed

lemma top_level_takes_jump:
  assumes "run_node P f (cur ! idx) st = Some (Inr (RGoto None (Some (parent, new_idx)), st'))"
    and "idx < length cur"
  shows "run_from P (Suc f) cur idx steps st = run_from P f parent new_idx steps st'"
  using assms by simp


text \<open>
  C1 says that a \<^verbatim>\<open>goto\<close> from a body nested in another body reaches the top-level loop
  of \<^verbatim>\<open>run\<close> and raises no error when the label is defined. The code does otherwise:
  the inner loop hands its body's jump on as a goto whose label is \<^verbatim>\<open>None\<close>, and
  \<^verbatim>\<open>run_stmt_list\<close> on the outer body looks that label up in the label table and raises
  \<^verbatim>\<open>Unknown label: None\<close>. On the script below the label \<^verbatim>\<open>done\<close> is in the label table
  and the run raises that error, whatever the fuel.
\<close>

theorem nested_goto_raises:
  "labels (interp_init (parse_lines nested_goto_script) :: 'o interp) ''done''
     = Some (parse_lines nested_goto_script, 2)
   \<and> run_lines (P :: ('o, 'm) py_scheme) (k + 8) nested_goto_script
     = Some (Inl (UnknownLabel None, interp_init (parse_lines nested_goto_script)))"
proof -
  let ?st = "interp_init (parse_lines nested_goto_script) :: 'o interp"
  have fuel: "k + 8 = Suc (Suc (Suc (Suc (Suc (Suc (Suc (Suc k)))))))" by simp
  have r: "root ?st = [Loop (Some ''1'') ''loop(1):'' [Loop (Some ''1'') ''loop(1):'' [Stmt ''goto done'']],
      Label ''done'' ''done():'']"
    by (simp add: interp_init_def parse_nested_goto_script)
  have "run P (k + 8) ?st = Some (Inl (UnknownLabel None, ?st))"
    unfolding run_def fuel r
    using outer_loop_raises [OF labels_nested_goto, of P k "''loop(1):''" "''loop(1):''"]
    by simp
  then show ?thesis using labels_nested_goto by (simp add: run_lines_def)
qed

section \<open>C2: a loop without a count over statements that only write\<close>

text \<open>
  The step counter lives in the loop of \<^verbatim>\<open>run\<close> alone. A loop without a count is
  \<^verbatim>\<open>while True\<close> inside \<^verbatim>\<open>run_node\<close>: when every pass over the body ends normally, the
  call never returns, so \<^verbatim>\<open>run\<close> never gets to count a step and the step limit is never
  raised.
\<close>

lemma exec_cmd_effect_only:
  assumes "cmd \<notin> set [''set'', ''math'', ''goto'', ''exit'']"
  shows "\<exists>st'. exec_cmd P raw cmd rest st = Inr (RNone, st')"
  using assms unfolding exec_cmd_def by simp

lemma effect_only_continues:
  assumes "effect_only raw"
  shows "\<exists>st'. exec_stmt P raw st = Inr (RNone, st')"
proof (cases "stmt_match raw")
  case None
  then show ?thesis by (simp add: exec_stmt_def)
next
  case (Some m)
  obtain w pa g3 where m: "m = (w, pa, g3)" by (cases m)
  with Some assms have "lower w \<notin> set [''set'', ''math'', ''goto'', ''exit'']"
    by (simp add: effect_only_def)
  from exec_cmd_effect_only [OF this] show ?thesis using Some m by (simp add: exec_stmt_def)
qed
lemma plain_body_done:
  assumes "list_all plain_node body"
  shows "run_stmt_list P f body i st = None \<or> (\<exists>st'. run_stmt_list P f body i st = Some (Inr (LDone, st')))"
  using assms
proof (induction f arbitrary: i st)
  case 0
  then show ?case by simp
next
  case (Suc f)
  show ?case
  proof (cases "i < length body")
    case False
    then show ?thesis by simp
  next
    case True
    with Suc.prems have pn: "plain_node (body ! i)" by (simp add: list_all_length)
    then obtain raw where raw: "body ! i = Stmt raw" "effect_only raw"
      by (cases "body ! i") auto
    show ?thesis
    proof (cases f)
      case 0
      with True show ?thesis by simp
    next
      case (Suc g)
      from effect_only_continues [OF raw(2), of P st]
      obtain st' where st': "exec_stmt P raw st = Inr (RNone, st')" by blast
      have "run_node P f (body ! i) st = Some (Inr (RNone, st'))"
        using Suc raw(1) st' by simp
      then have "run_stmt_list P (Suc f) body i st = run_stmt_list P f body (Suc i) st'"
        using True by simp
      then show ?thesis using Suc.IH [OF Suc.prems, of "Suc i" st'] \<open>f = Suc g\<close> by simp
    qed
  qed
qed

lemma loop_forever_plain:
  assumes "list_all plain_node body"
  shows "loop_forever P f body st = None"
proof (induction f arbitrary: st)
  case 0
  then show ?case by simp
next
  case (Suc f)
  from plain_body_done [OF assms, of P f 0 st]
  show ?case
  proof
    assume "run_stmt_list P f body 0 st = None"
    then show ?thesis by simp
  next
    assume "\<exists>st'. run_stmt_list P f body 0 st = Some (Inr (LDone, st'))"
    then obtain st' where "run_stmt_list P f body 0 st = Some (Inr (LDone, st'))" by blast
    then show ?thesis using Suc.IH [of st'] by simp
  qed
qed

lemma uncounted_loop_never_returns:
  assumes "list_all plain_node body"
  shows "run_node P f (Loop None raw body) st = None"
    and "run_node P f (Loop (Some []) raw body) st = None"
proof -
  show "run_node P f (Loop None raw body) st = None"
    using loop_forever_plain [OF assms] by (cases f) simp_all
  show "run_node P f (Loop (Some []) raw body) st = None"
    using loop_forever_plain [OF assms] by (cases f) simp_all
qed

lemma parse_forever_script:
  "parse_lines forever_script = [Loop None ''loop:'' [Stmt ''text \"hi\"'']]"
  by code_simp

lemma text_hi_effect_only: "effect_only ''text \"hi\"''"
  by code_simp

text \<open>
  C2 says that a loop without a count whose body neither jumps nor exits ends in
  \<^verbatim>\<open>StepLimitExceeded\<close>. On the script \<^verbatim>\<open>loop:\<close> over \<^verbatim>\<open>text "hi"\<close> the run does not return at
  all: no amount of fuel yields a result, be it an error or a normal end.
\<close>

theorem forever_script_never_returns:
  "run_lines P fuel forever_script = None"
proof (cases fuel)
  case 0
  then show ?thesis by (simp add: run_lines_def run_def)
next
  case (Suc f)
  have "run_node P f (Loop None ''loop:'' [Stmt ''text \"hi\"'']) st = None" for st :: "'a interp"
    by (rule uncounted_loop_never_returns) (simp add: text_hi_effect_only)
  then show ?thesis using Suc
    by (simp add: run_lines_def run_def interp_init_def parse_forever_script)
qed

section \<open>Facts about the statement pattern\<close>

lemma ident_start_is_word: "is_ident_start c \<Longrightarrow> is_word c"
  by (simp add: is_word_def)



lemma split_ident_none:
  assumes "\<not> starts_ident raw"
  shows "split_ident raw = None"
  using assms by (cases raw) (auto simp: starts_ident_def split_ident_def)











section \<open>C3: a parenthesized list and trailing text\<close>






section \<open>C10: a statement that does not start with an identifier\<close>

lemma unknown_cmd:
  assumes "cmd \<notin> set known_cmds"
  shows "exec_cmd P raw cmd rest st
         = Inr (RNone, emit (Print (''Unknown command: '' @ cmd @ '' (raw: '' @ raw @ '')'')) st)"
  using assms unfolding exec_cmd_def known_cmds_def by simp

text \<open>
  C10. When the raw text of a statement does not start with a letter or an underscore,
  the statement pattern does not match and \<^verbatim>\<open>run_node\<close> returns at once: the state,
  the terminal included, is as before. A statement that matches with a command name the
  interpreter does not know writes the diagnostic line instead.
\<close>

theorem unmatched_statement_skipped:
  "(\<not> starts_ident raw \<longrightarrow> run_node P (Suc f) (Stmt raw) st = Some (Inr (RNone, st)))
   \<and> (stmt_match raw2 = Some (w, pa, g3) \<and> lower w \<notin> set known_cmds \<longrightarrow>
        run_node P (Suc f) (Stmt raw2) st
          = Some (Inr (RNone,
              emit (Print (''Unknown command: '' @ lower w @ '' (raw: '' @ raw2 @ '')'')) st)))"
  by (auto simp: exec_stmt_def split_ident_none stmt_match_def unknown_cmd)

theorem unmatched_statement_skipped_witness:
  "run_node sum_runtime (Suc 0) (Stmt ''1abc'') (interp_init [])
     = Some (Inr (RNone, interp_init []))
   \<and> run_node sum_runtime (Suc 0) (Stmt ''frob nicate'') (interp_init [])
     = Some (Inr (RNone,
          emit (Print ''Unknown command: frob (raw: frob nicate)'') (interp_init [])))"
proof -
  have h: "\<not> starts_ident ''1abc''"
    "stmt_match ''frob nicate'' = Some (''frob'', None, Some ''nicate'')"
    "lower ''frob'' \<notin> set known_cmds" "lower ''frob'' = ''frob''"
    by code_simp+
  from unmatched_statement_skipped [of "''1abc''" sum_runtime 0 "interp_init []"
      "''frob nicate''" "''frob''" None "Some ''nicate''"] h
  show ?thesis by simp
qed

section \<open>Facts about the tree builder\<close>












section \<open>C4: an \<^verbatim>\<open>elif\<close> or \<^verbatim>\<open>else\<close> header with no conditional before it\<close>






section \<open>C5: nodes between a conditional and its \<^verbatim>\<open>elif\<close> or \<^verbatim>\<open>else\<close>\<close>




section \<open>C6: \<^verbatim>\<open>set x = 5\<close>, then \<^verbatim>\<open>math x = x + 2\<close>\<close>

lemma set_x_5_stmt:
  "exec_stmt P ''set x = 5'' st = Inr (RNone, set_var ''x'' (VInt 5) st)"
proof -
  have "stmt_match ''set x = 5'' = Some (''set'', None, Some ''x = 5'')"
    "lower ''set'' = ''set''" "assign_match ''x = 5'' = Some (''x'', ''5'')"
    "strip ''5'' = ''5''" "\<not> quoted ''5''" "is_number ''5''" "py_int ''5'' = Some 5"
    "CHR ''.'' \<notin> set ''5''"
    by code_simp+
  then show ?thesis
    by (simp add: exec_stmt_def stmt_rest_def exec_cmd_def exec_set_def to_number_str_def)
qed

lemma safe_expr_x_plus_2:
  assumes "vs ''x'' = Some (VInt 5)"
  shows "safe_expr P vs ''x + 2'' = ''5 + 2''"
proof -
  have a: "repl_var P vs ''x'' = ''5''"
  proof -
    have "int_str 5 = ''5''" by code_simp
    then show ?thesis using assms by (simp add: repl_var_def)
  qed
  have w: "is_ident_start CHR ''x''" "\<not> is_word CHR '' ''" "\<not> is_ident_start CHR '' ''"
    "\<not> is_ident_start CHR ''+''" "\<not> is_word CHR ''+''" "\<not> is_ident_start CHR ''2''"
    by code_simp+
  show ?thesis by (simp add: safe_expr_def w a)
qed

lemma math_x_stmt:
  assumes "py_eval P ''5 + 2'' = Inr (VInt 7)" and "vars st ''x'' = Some (VInt 5)"
  shows "exec_stmt P ''math x = x + 2'' st = Inr (RNone, set_var ''x'' (VInt 7) st)"
proof -
  have "stmt_match ''math x = x + 2'' = Some (''math'', None, Some ''x = x + 2'')"
    "lower ''math'' = ''math''" "assign_match ''x = x + 2'' = Some (''x'', ''x + 2'')"
    by code_simp+
  then show ?thesis using assms safe_expr_x_plus_2 [of "vars st" P]
    by (simp add: exec_stmt_def stmt_rest_def exec_cmd_def exec_math_def eval_expr_def)
qed

lemma parse_assign_script:
  "parse_lines assign_script = [Stmt ''set x = 5'', Stmt ''math x = x + 2'']"
  by code_simp

text \<open>
  C6. From any state whose tree is the two statements (any variable store, any label
  table, a step ceiling of two or more), the run ends normally and leaves \<^verbatim>\<open>x\<close> bound to
  the integer 7, everything else as it was. \<^verbatim>\<open>set\<close> stores the integer 5; \<^verbatim>\<open>math\<close> hands
  \<^verbatim>\<open>eval\<close> the text \<^verbatim>\<open>5 + 2\<close>, and the one thing asked of the runtime is that Python's
  \<^verbatim>\<open>eval\<close> makes 7 of it.
\<close>

theorem set_then_math_gives_seven:
  assumes "py_eval P ''5 + 2'' = Inr (VInt 7)"
    and "root st = parse_lines assign_script" and "2 \<le> call_stack_limit st"
  shows "run P (k + 4) st = Some (Inr (st\<lparr>vars := (vars st)(''x'' \<mapsto> VInt 7)\<rparr>))"
proof -
  have f: "k + 4 = Suc (Suc (Suc (Suc k)))" by simp
  let ?s1 = "set_var ''x'' (VInt 5) st"
  have m: "exec_stmt P ''math x = x + 2'' ?s1 = Inr (RNone, set_var ''x'' (VInt 7) ?s1)"
    by (rule math_x_stmt [OF assms(1)]) (simp add: set_var_def)
  have e: "set_var ''x'' (VInt 7) ?s1 = st\<lparr>vars := (vars st)(''x'' \<mapsto> VInt 7)\<rparr>"
    by (simp add: set_var_def)
  show ?thesis
    unfolding run_def f assms(2) parse_assign_script
    using assms(3) m e by (simp add: set_x_5_stmt set_var_def)
qed

lemma eval_sum_5_2: "eval_sum ''5 + 2'' = Inr (VInt 7)"
  by code_simp

theorem set_then_math_gives_seven_witness:
  "run sum_runtime 4 (interp_init (parse_lines assign_script))
     = Some (Inr ((interp_init (parse_lines assign_script))
          \<lparr>vars := (vars (interp_init (parse_lines assign_script)))(''x'' \<mapsto> VInt 7)\<rparr>))"
proof -
  have a: "py_eval sum_runtime ''5 + 2'' = Inr (VInt 7)"
    by (simp add: sum_runtime_def eval_sum_5_2)
  have b: "root (interp_init (parse_lines assign_script) :: unit interp) = parse_lines assign_script"
    by (simp add: interp_init_def)
  have c: "2 \<le> call_stack_limit (interp_init (parse_lines assign_script) :: unit interp)"
    by (simp add: interp_init_def)
  from set_then_math_gives_seven [OF a b c, of 0] show ?thesis by simp
qed

section \<open>C8: identifiers that are not in the variable store\<close>






subsection \<open>\<^verbatim>\<open>text\<close> with a bare identifier\<close>










section \<open>More fuel does not change a result\<close>

lemma engine_mono_step:
  fixes P :: "('o, 'm) py_scheme"
  assumes H: "(\<forall>g n st r. f \<le> g \<longrightarrow> run_node P f n st = Some r \<longrightarrow> run_node P g n st = Some r)
     \<and> (\<forall>g lst i st r. f \<le> g \<longrightarrow> run_stmt_list P f lst i st = Some r
           \<longrightarrow> run_stmt_list P g lst i st = Some r)
     \<and> (\<forall>g cs st r. f \<le> g \<longrightarrow> loop_forever P f cs st = Some r
           \<longrightarrow> loop_forever P g cs st = Some r)
     \<and> (\<forall>g k cs st r. f \<le> g \<longrightarrow> loop_times P f k cs st = Some r
           \<longrightarrow> loop_times P g k cs st = Some r)
     \<and> (\<forall>g ps st r. f \<le> g \<longrightarrow> run_parts P f ps st = Some r
           \<longrightarrow> run_parts P g ps st = Some r)"
    and le: "f \<le> g"
  shows "run_node P (Suc f) n st = Some r \<Longrightarrow> run_node P (Suc g) n st = Some r"
    and "run_stmt_list P (Suc f) lst i st = Some rl \<Longrightarrow> run_stmt_list P (Suc g) lst i st = Some rl"
    and "loop_forever P (Suc f) cs st = Some r \<Longrightarrow> loop_forever P (Suc g) cs st = Some r"
    and "loop_times P (Suc f) k cs st = Some r \<Longrightarrow> loop_times P (Suc g) k cs st = Some r"
    and "run_parts P (Suc f) ps st = Some r \<Longrightarrow> run_parts P (Suc g) ps st = Some r"
proof -
  note IHn = H [THEN conjunct1, rule_format]
  note IHl = H [THEN conjunct2, THEN conjunct1, rule_format]
  note IHf = H [THEN conjunct2, THEN conjunct2, THEN conjunct1, rule_format]
  note IHt = H [THEN conjunct2, THEN conjunct2, THEN conjunct2, THEN conjunct1, rule_format]
  note IHp = H [THEN conjunct2, THEN conjunct2, THEN conjunct2, THEN conjunct2, rule_format]
  have node: "run_node P (Suc g) n st = Some r"
    if h: "run_node P (Suc f) n st = Some r" and le: "f \<le> g" for g n st r
  proof (cases n)
    case (Label name raw)
    with h show ?thesis by simp
  next
    case (Stmt raw)
    with h show ?thesis by simp
  next
    case (IfPart pt)
    with h show ?thesis by simp
  next
    case (IfChain ps raw)
    with h have "run_parts P f ps st = Some r" by simp
    from IHp [OF le this] IfChain show ?thesis by simp
  next
    case (Loop pa raw cs)
    show ?thesis
    proof (cases pa)
      case None
      with h Loop have "loop_forever P f cs st = Some r" by simp
      from IHf [OF le this] Loop None show ?thesis by simp
    next
      case (Some param)
      show ?thesis
      proof (cases "param = []")
        case True
        with h Loop Some have "loop_forever P f cs st = Some r" by simp
        from IHf [OF le this] Loop Some True show ?thesis by simp
      next
        case False
        show ?thesis
        proof (cases "loop_count P (vars st) param")
          case None
          with h Loop Some False show ?thesis by simp
        next
          case (Some cnt)
          with h Loop \<open>pa = Some param\<close> False
          have "loop_times P f (nat cnt) cs st = Some r" by simp
          from IHt [OF le this] Loop \<open>pa = Some param\<close> False Some show ?thesis by simp
        qed
      qed
    qed
  qed
  have lst: "run_stmt_list P (Suc g) lst i st = Some r"
    if h: "run_stmt_list P (Suc f) lst i st = Some r" and le: "f \<le> g" for g lst i st r
  proof (cases "i < length lst")
    case False
    with h show ?thesis by simp
  next
    case True
    show ?thesis
    proof (cases "run_node P f (lst ! i) st")
      case None
      with h True show ?thesis by simp
    next
      case (Some x)
      from IHn [OF le Some] have up: "run_node P g (lst ! i) st = Some x" .
      show ?thesis
      proof (cases x)
        case (Inl e)
        with h True Some up show ?thesis by simp
      next
        case (Inr p)
        obtain res st' where p: "p = (res, st')" by (cases p)
        show ?thesis
        proof (cases res)
          case RNone
          with h True Some Inr p have "run_stmt_list P f lst (Suc i) st' = Some r" by simp
          from IHl [OF le this] True up Inr p RNone show ?thesis by simp
        next
          case (RGoto label j)
          with h True Some up Inr p show ?thesis by simp
        next
          case RReturn
          with h True Some up Inr p show ?thesis by simp
        qed
      qed
    qed
  qed
  have forever: "loop_forever P (Suc g) cs st = Some r"
    if h: "loop_forever P (Suc f) cs st = Some r" and le: "f \<le> g" for g cs st r
  proof (cases "run_stmt_list P f cs 0 st")
    case None
    with h show ?thesis by simp
  next
    case (Some x)
    from IHl [OF le Some] have up: "run_stmt_list P g cs 0 st = Some x" .
    show ?thesis
    proof (cases x)
      case (Inl e)
      with h Some up show ?thesis by simp
    next
      case (Inr p)
      obtain res st' where p: "p = (res, st')" by (cases p)
      show ?thesis
      proof (cases res)
        case LDone
        with h Some Inr p have "loop_forever P f cs st' = Some r" by simp
        from IHf [OF le this] up Inr p LDone show ?thesis by simp
      next
        case (LJump parent idx)
        with h Some up Inr p show ?thesis by simp
      next
        case LReturn
        with h Some up Inr p show ?thesis by simp
      qed
    qed
  qed
  have counted: "loop_times P (Suc g) k cs st = Some r"
    if h: "loop_times P (Suc f) k cs st = Some r" and le: "f \<le> g" for g k cs st r
  proof (cases k)
    case 0
    with h show ?thesis by simp
  next
    case (Suc k')
    show ?thesis
    proof (cases "run_stmt_list P f cs 0 st")
      case None
      with h Suc show ?thesis by simp
    next
      case (Some x)
      from IHl [OF le Some] have up: "run_stmt_list P g cs 0 st = Some x" .
      show ?thesis
      proof (cases x)
        case (Inl e)
        with h Suc Some up show ?thesis by simp
      next
        case (Inr p)
        obtain res st' where p: "p = (res, st')" by (cases p)
        show ?thesis
        proof (cases res)
          case LDone
          with h Suc Some Inr p have "loop_times P f k' cs st' = Some r" by simp
          from IHt [OF le this] Suc up Inr p LDone show ?thesis by simp
        next
          case (LJump parent idx)
          with h Suc Some up Inr p show ?thesis by simp
        next
          case LReturn
          with h Suc Some up Inr p show ?thesis by simp
        qed
      qed
    qed
  qed
  have arm: "(case run_stmt_list P g cs 0 st of None \<Rightarrow> None | Some (Inl e) \<Rightarrow> Some (Inl e)
         | Some (Inr (res, st')) \<Rightarrow> Some (Inr (body_signal res, st'))) = Some r"
    if h: "(case run_stmt_list P f cs 0 st of None \<Rightarrow> None | Some (Inl e) \<Rightarrow> Some (Inl e)
         | Some (Inr (res, st')) \<Rightarrow> Some (Inr (body_signal res, st'))) = Some r"
      and le: "f \<le> g" for g cs st r
  proof (cases "run_stmt_list P f cs 0 st")
    case None
    with h show ?thesis by simp
  next
    case (Some x)
    from IHl [OF le Some] have up: "run_stmt_list P g cs 0 st = Some x" .
    from h Some up show ?thesis by simp
  qed
  have parts: "run_parts P (Suc g) ps st = Some r"
    if h: "run_parts P (Suc f) ps st = Some r" and le: "f \<le> g" for g ps st r
  proof (cases ps)
    case Nil
    with h show ?thesis by simp
  next
    case (Cons pt rest)
    obtain kd c cs raw where pt: "pt = Part kd c cs raw" by (cases pt)
    show ?thesis
    proof (cases "kd = KElse")
      case True
      with h Cons pt show ?thesis using arm [OF _ le, of cs st r] by simp
    next
      case False
      show ?thesis
      proof (cases "eval_cond P (vars st) c")
        case (Inl e)
        with h Cons pt False show ?thesis by simp
      next
        case (Inr ok)
        show ?thesis
        proof (cases ok)
          case True
          with h Cons pt False Inr show ?thesis using arm [OF _ le, of cs st r] by simp
        next
          case no: False
          with h Cons pt False Inr have "run_parts P f rest st = Some r" by simp
          from IHp [OF le this] Cons pt False Inr no show ?thesis by simp
        qed
      qed
    qed
  qed
  show "run_node P (Suc f) n st = Some r \<Longrightarrow> run_node P (Suc g) n st = Some r"
    using node [OF _ le] .
  show "run_stmt_list P (Suc f) lst i st = Some rl \<Longrightarrow> run_stmt_list P (Suc g) lst i st = Some rl"
    using lst [OF _ le] .
  show "loop_forever P (Suc f) cs st = Some r \<Longrightarrow> loop_forever P (Suc g) cs st = Some r"
    using forever [OF _ le] .
  show "loop_times P (Suc f) k cs st = Some r \<Longrightarrow> loop_times P (Suc g) k cs st = Some r"
    using counted [OF _ le] .
  show "run_parts P (Suc f) ps st = Some r \<Longrightarrow> run_parts P (Suc g) ps st = Some r"
    using parts [OF _ le] .
qed

lemma engine_mono:
  fixes P :: "('o, 'm) py_scheme"
  shows "(\<forall>g n st r. f \<le> g \<longrightarrow> run_node P f n st = Some r \<longrightarrow> run_node P g n st = Some r)
   \<and> (\<forall>g lst i st r. f \<le> g \<longrightarrow> run_stmt_list P f lst i st = Some r
         \<longrightarrow> run_stmt_list P g lst i st = Some r)
   \<and> (\<forall>g cs st r. f \<le> g \<longrightarrow> loop_forever P f cs st = Some r \<longrightarrow> loop_forever P g cs st = Some r)
   \<and> (\<forall>g k cs st r. f \<le> g \<longrightarrow> loop_times P f k cs st = Some r
         \<longrightarrow> loop_times P g k cs st = Some r)
   \<and> (\<forall>g ps st r. f \<le> g \<longrightarrow> run_parts P f ps st = Some r \<longrightarrow> run_parts P g ps st = Some r)"
proof (induction f)
  case 0
  show ?case by simp
next
  case (Suc f)
  note step = engine_mono_step [of f P, OF Suc.IH]
  have up: "\<exists>g'. g = Suc g' \<and> f \<le> g'" if "Suc f \<le> g" for g
    using that by (cases g) auto
  show ?case
  proof (intro conjI allI impI)
    fix g n st r
    assume le: "Suc f \<le> g" and h: "run_node P (Suc f) n st = Some r"
    from up [OF le] obtain g' where g: "g = Suc g'" "f \<le> g'" by blast
    show "run_node P g n st = Some r" unfolding g(1) by (rule step(1) [OF g(2) h])
  next
    fix g lst i st r
    assume le: "Suc f \<le> g" and h: "run_stmt_list P (Suc f) lst i st = Some r"
    from up [OF le] obtain g' where g: "g = Suc g'" "f \<le> g'" by blast
    show "run_stmt_list P g lst i st = Some r" unfolding g(1) by (rule step(2) [OF g(2) h])
  next
    fix g cs st r
    assume le: "Suc f \<le> g" and h: "loop_forever P (Suc f) cs st = Some r"
    from up [OF le] obtain g' where g: "g = Suc g'" "f \<le> g'" by blast
    show "loop_forever P g cs st = Some r" unfolding g(1) by (rule step(3) [OF g(2) h])
  next
    fix g k cs st r
    assume le: "Suc f \<le> g" and h: "loop_times P (Suc f) k cs st = Some r"
    from up [OF le] obtain g' where g: "g = Suc g'" "f \<le> g'" by blast
    show "loop_times P g k cs st = Some r" unfolding g(1) by (rule step(4) [OF g(2) h])
  next
    fix g ps st r
    assume le: "Suc f \<le> g" and h: "run_parts P (Suc f) ps st = Some r"
    from up [OF le] obtain g' where g: "g = Suc g'" "f \<le> g'" by blast
    show "run_parts P g ps st = Some r" unfolding g(1) by (rule step(5) [OF g(2) h])
  qed
qed



lemma run_node_mono:
  "run_node P f n st = Some r \<Longrightarrow> f \<le> g \<Longrightarrow> run_node P g n st = Some r"
  by (rule engine_mono [of f P, THEN conjunct1, rule_format])

section \<open>C7: the counted loop\<close>



lemma counted_spec_all_done:
  "counted_spec n (\<lambda>s. Inr (LDone, g s)) s = Inr (RNone, (g ^^ n) s)"
  by (induction n arbitrary: s) (simp_all add: funpow_swap1)

lemma loop_count_int_variable:
  assumes "\<not> is_number (strip param)" and "vs (strip param) = Some (VInt n)"
  shows "loop_count P vs param = Some n"
  using assms by (simp add: loop_count_def)

lemma loop_count_unknown_variable:
  assumes "\<not> is_number (strip param)" and "vs (strip param) = None"
  shows "loop_count P vs param = Some 0"
  using assms by (simp add: loop_count_def)








section \<open>C9: the tree and the label table during a run\<close>

lemma same_program_refl: "same_program st st"
  by (simp add: same_program_def)

lemma same_program_trans: "same_program a b \<Longrightarrow> same_program b c \<Longrightarrow> same_program a c"
  by (simp add: same_program_def)

lemma same_program_set_var: "same_program st (set_var n v st)"
  by (simp add: same_program_def set_var_def)

lemma same_program_emit: "same_program st (emit e st)"
  by (simp add: same_program_def emit_def)

lemma exec_set_frame: "same_program st (final_state (exec_set P raw rest st))"
  by (auto simp: exec_set_def Let_def same_program_refl same_program_set_var
      split: option.splits sum.splits)

lemma exec_math_frame: "same_program st (final_state (exec_math P raw rest st))"
  by (auto simp: exec_math_def same_program_refl same_program_set_var
      split: option.splits sum.splits)

lemma exec_pause_frame: "same_program st (exec_pause P rest st)"
  by (auto simp: exec_pause_def Let_def same_program_emit split: option.splits)

lemma exec_cmd_frame: "same_program st (final_state (exec_cmd P raw cmd rest st))"
  unfolding exec_cmd_def
  by (simp add: same_program_refl same_program_emit exec_set_frame exec_math_frame exec_pause_frame)

lemma exec_stmt_frame: "same_program st (final_state (exec_stmt P raw st))"
  by (auto simp: exec_stmt_def same_program_refl exec_cmd_frame split: option.splits)


lemma engine_frame:
  "(\<forall>n st r. run_node P f n st = Some r \<longrightarrow> same_program st (final_state r))
   \<and> (\<forall>lst i st r. run_stmt_list P f lst i st = Some r \<longrightarrow> same_program st (final_state r))
   \<and> (\<forall>cs st r. loop_forever P f cs st = Some r \<longrightarrow> same_program st (final_state r))
   \<and> (\<forall>k cs st r. loop_times P f k cs st = Some r \<longrightarrow> same_program st (final_state r))
   \<and> (\<forall>ps st r. run_parts P f ps st = Some r \<longrightarrow> same_program st (final_state r))"
proof (induction f)
  case 0
  show ?case by simp
next
  case (Suc f)
  then have IHn: "\<And>n st r. run_node P f n st = Some r \<Longrightarrow> same_program st (final_state r)"
    and IHl: "\<And>lst i st r. run_stmt_list P f lst i st = Some r \<Longrightarrow> same_program st (final_state r)"
    and IHf: "\<And>cs st r. loop_forever P f cs st = Some r \<Longrightarrow> same_program st (final_state r)"
    and IHt: "\<And>k cs st r. loop_times P f k cs st = Some r \<Longrightarrow> same_program st (final_state r)"
    and IHp: "\<And>ps st r. run_parts P f ps st = Some r \<Longrightarrow> same_program st (final_state r)"
    by blast+
  have body: "same_program st (final_state r)"
    if "run_stmt_list P f cs 0 st = Some x"
      and "\<And>st'. x = Inr (LDone, st') \<Longrightarrow> k st' = Some r"
      and "\<And>st'. k st' = Some r \<Longrightarrow> same_program st' (final_state r)"
      and "(case x of Inl e \<Rightarrow> Some (Inl e)
            | Inr (LJump parent idx, st') \<Rightarrow> Some (Inr (RGoto None (Some (parent, idx)), st'))
            | Inr (LReturn, st') \<Rightarrow> Some (Inr (RReturn, st'))
            | Inr (LDone, st') \<Rightarrow> k st') = Some r"
    for cs st x r and k :: "'a interp \<Rightarrow> (signal, 'a) outcome"
  proof -
    from IHl [OF that(1)] have s: "same_program st (final_state x)" .
    show ?thesis
    proof (cases x)
      case (Inl e)
      with that(4) s show ?thesis by (cases e) auto
    next
      case (Inr p)
      obtain res st' where p: "p = (res, st')" by (cases p)
      with Inr s have s': "same_program st st'" by simp
      show ?thesis
      proof (cases res)
        case LDone
        with Inr p that(4) have "k st' = Some r" by simp
        from that(3) [OF this] s' show ?thesis by (rule same_program_trans [rotated])
      next
        case (LJump parent idx)
        with Inr p that(4) s' show ?thesis by auto
      next
        case LReturn
        with Inr p that(4) s' show ?thesis by auto
      qed
    qed
  qed
  have node: "same_program st (final_state r)" if h: "run_node P (Suc f) n st = Some r" for n st r
  proof (cases n)
    case (Label name raw)
    with h show ?thesis by (auto simp: same_program_refl)
  next
    case (Stmt raw)
    with h show ?thesis using exec_stmt_frame [of st P raw] by auto
  next
    case (IfPart pt)
    with h show ?thesis by (auto simp: same_program_refl)
  next
    case (IfChain ps raw)
    with h IHp show ?thesis by auto
  next
    case (Loop pa raw cs)
    show ?thesis
    proof (cases pa)
      case None
      with h Loop IHf show ?thesis by auto
    next
      case (Some param)
      with h Loop IHf IHt show ?thesis
        by (auto simp: same_program_refl split: if_splits option.splits)
    qed
  qed
  have lst: "same_program st (final_state r)"
    if h: "run_stmt_list P (Suc f) lst i st = Some r" for lst i st r
  proof (cases "i < length lst")
    case False
    with h show ?thesis by (auto simp: same_program_refl)
  next
    case True
    show ?thesis
    proof (cases "run_node P f (lst ! i) st")
      case None
      with h True show ?thesis by simp
    next
      case (Some x)
      from IHn [OF Some] have s: "same_program st (final_state x)" .
      show ?thesis
      proof (cases x)
        case (Inl e)
        with h True Some s show ?thesis by (cases e) auto
      next
        case (Inr p)
        obtain res st' where p: "p = (res, st')" by (cases p)
        with Inr s have s': "same_program st st'" by simp
        show ?thesis
        proof (cases res)
          case RNone
          with h True Some Inr p have "run_stmt_list P f lst (Suc i) st' = Some r" by simp
          from IHl [OF this] s' show ?thesis by (rule same_program_trans [rotated])
        next
          case (RGoto label j)
          with h True Some Inr p s' show ?thesis
            by (auto split: option.splits)
        next
          case RReturn
          with h True Some Inr p s' show ?thesis by auto
        qed
      qed
    qed
  qed
  have forever: "same_program st (final_state r)"
    if h: "loop_forever P (Suc f) cs st = Some r" for cs st r
  proof (cases "run_stmt_list P f cs 0 st")
    case None
    with h show ?thesis by simp
  next
    case (Some x)
    show ?thesis
    proof (rule body [OF Some, of "loop_forever P f cs"])
      show "same_program st' (final_state r)" if "loop_forever P f cs st' = Some r" for st'
        using IHf [OF that] .
      show "loop_forever P f cs st' = Some r" if "x = Inr (LDone, st')" for st'
        using h Some that by simp
      show "(case x of Inl e \<Rightarrow> Some (Inl e)
            | Inr (LJump parent idx, st') \<Rightarrow> Some (Inr (RGoto None (Some (parent, idx)), st'))
            | Inr (LReturn, st') \<Rightarrow> Some (Inr (RReturn, st'))
            | Inr (LDone, st') \<Rightarrow> loop_forever P f cs st') = Some r"
        using h Some by (auto split: sum.splits lres.splits)
    qed
  qed
  have counted: "same_program st (final_state r)"
    if h: "loop_times P (Suc f) k cs st = Some r" for k cs st r
  proof (cases k)
    case 0
    with h show ?thesis by (auto simp: same_program_refl)
  next
    case (Suc k')
    show ?thesis
    proof (cases "run_stmt_list P f cs 0 st")
      case None
      with h Suc show ?thesis by simp
    next
      case (Some x)
      show ?thesis
      proof (rule body [OF Some, of "loop_times P f k' cs"])
        show "same_program st' (final_state r)" if "loop_times P f k' cs st' = Some r" for st'
          using IHt [OF that] .
        show "loop_times P f k' cs st' = Some r" if "x = Inr (LDone, st')" for st'
          using h Some Suc that by simp
        show "(case x of Inl e \<Rightarrow> Some (Inl e)
            | Inr (LJump parent idx, st') \<Rightarrow> Some (Inr (RGoto None (Some (parent, idx)), st'))
            | Inr (LReturn, st') \<Rightarrow> Some (Inr (RReturn, st'))
            | Inr (LDone, st') \<Rightarrow> loop_times P f k' cs st') = Some r"
          using h Some Suc by (auto split: sum.splits lres.splits)
      qed
    qed
  qed
  have arm: "same_program st (final_state r)"
    if "(case run_stmt_list P f cs 0 st of None \<Rightarrow> None | Some (Inl e) \<Rightarrow> Some (Inl e)
         | Some (Inr (res, st')) \<Rightarrow> Some (Inr (body_signal res, st'))) = Some r" for cs st r
  proof (cases "run_stmt_list P f cs 0 st")
    case None
    with that show ?thesis by simp
  next
    case (Some x)
    from IHl [OF Some] have "same_program st (final_state x)" .
    with that Some show ?thesis by (cases x) (auto split: prod.splits)
  qed
  have parts: "same_program st (final_state r)"
    if h: "run_parts P (Suc f) ps st = Some r" for ps st r
  proof (cases ps)
    case Nil
    with h show ?thesis by (auto simp: same_program_refl)
  next
    case (Cons pt rest)
    obtain kd c cs raw where pt: "pt = Part kd c cs raw" by (cases pt)
    show ?thesis
    proof (cases "kd = KElse")
      case True
      with h Cons pt show ?thesis using arm [of cs st r] by simp
    next
      case False
      show ?thesis
      proof (cases "eval_cond P (vars st) c")
        case (Inl e)
        with h Cons pt False show ?thesis by (auto simp: same_program_refl)
      next
        case (Inr ok)
        show ?thesis
        proof (cases ok)
          case True
          with h Cons pt False Inr show ?thesis using arm [of cs st r] by simp
        next
          case no: False
          with h Cons pt False Inr have "run_parts P f rest st = Some r" by simp
          from IHp [OF this] show ?thesis .
        qed
      qed
    qed
  qed
  from node lst forever counted parts show ?case by blast
qed

lemma run_from_frame:
  "run_from P f cur idx steps st = Some r \<Longrightarrow> same_program st (end_state r)"
proof (induction f arbitrary: cur idx steps st)
  case 0
  then show ?case by simp
next
  case (Suc f)
  show ?case
  proof (cases "length cur \<le> idx")
    case True
    with Suc.prems show ?thesis by (auto simp: same_program_refl)
  next
    case False
    show ?thesis
    proof (cases "run_node P f (cur ! idx) st")
      case None
      with Suc.prems False show ?thesis by simp
    next
      case (Some x)
      from engine_frame [of P f] Some have s: "same_program st (final_state x)" by blast
      show ?thesis
      proof (cases x)
        case (Inl e)
        with Suc.prems False Some s show ?thesis by (cases e) auto
      next
        case (Inr p)
        obtain res st' where p: "p = (res, st')" by (cases p)
        with Inr s have s': "same_program st st'" by simp
        have "same_program st' (end_state r)"
          using Suc.prems False Some Inr p Suc.IH
          by (auto simp: same_program_refl split: signal.splits option.splits if_splits)
        with s' show ?thesis by (rule same_program_trans)
      qed
    qed
  qed
qed

text \<open>
  C9. Whatever \<^verbatim>\<open>run_node\<close> does on a node, and whatever a whole \<^verbatim>\<open>run\<close> does, when it
  returns or raises the interpreter holds the tree, the label table and the step ceiling
  it held before: of the interpreter's fields only the variable store can differ (the
  terminal is written to).
\<close>

theorem program_and_labels_unchanged:
  "(run_node P f n st = Some r \<longrightarrow>
      root (final_state r) = root st \<and> labels (final_state r) = labels st
      \<and> call_stack_limit (final_state r) = call_stack_limit st)
   \<and> (run P f st = Some r' \<longrightarrow>
      root (end_state r') = root st \<and> labels (end_state r') = labels st
      \<and> call_stack_limit (end_state r') = call_stack_limit st)"
  using engine_frame [of P f] run_from_frame [of P f "root st" 0 0 st r']
  by (auto simp: same_program_def run_def)

theorem program_and_labels_unchanged_witness:
  "run_node sum_runtime (Suc 0) (Stmt ''set x = 5'') (interp_init [Stmt ''set x = 5''])
     = Some (Inr (RNone, set_var ''x'' (VInt 5) (interp_init [Stmt ''set x = 5''])))
   \<and> run sum_runtime (Suc (Suc 0)) (interp_init [Stmt ''set x = 5''])
     = Some (Inr (set_var ''x'' (VInt 5) (interp_init [Stmt ''set x = 5''])))
   \<and> root (set_var ''x'' (VInt 5) (interp_init [Stmt ''set x = 5'']) :: unit interp)
     = root (interp_init [Stmt ''set x = 5''] :: unit interp)
   \<and> labels (set_var ''x'' (VInt 5) (interp_init [Stmt ''set x = 5'']) :: unit interp)
     = labels (interp_init [Stmt ''set x = 5''] :: unit interp)
   \<and> vars (set_var ''x'' (VInt 5) (interp_init [Stmt ''set x = 5'']) :: unit interp) ''x''
     = Some (VInt 5)"
proof -
  let ?st = "interp_init [Stmt ''set x = 5''] :: unit interp"
  let ?st' = "set_var ''x'' (VInt 5) ?st"
  have a: "run_node sum_runtime (Suc 0) (Stmt ''set x = 5'') ?st = Some (Inr (RNone, ?st'))"
    by (simp add: set_x_5_stmt)
  have l: "1 \<le> call_stack_limit ?st'" by (simp add: set_var_def interp_init_def)
  have b: "run sum_runtime (Suc (Suc 0)) ?st = Some (Inr ?st')"
    unfolding run_def using a l by (simp add: interp_init_def)
  from program_and_labels_unchanged [where P = sum_runtime and f = "Suc 0"
      and n = "Stmt ''set x = 5''" and st = ?st and r = "Inr (RNone, ?st')",
      THEN conjunct1, rule_format, OF a]
  have c: "root ?st' = root ?st" "labels ?st' = labels ?st" by simp_all
  from program_and_labels_unchanged [where P = sum_runtime and f = "Suc (Suc 0)"
      and st = ?st and r' = "Inr ?st'", THEN conjunct2, rule_format, OF b]
  have d: "call_stack_limit ?st' = call_stack_limit ?st" by simp
  have v: "vars ?st' ''x'' = Some (VInt 5)" by (simp add: set_var_def)
  from a b c v show ?thesis by simp
qed

end
